theory Spec2Isabelle
  imports Main "HOL-Library.AList"
begin

section \<open>The naive state machine of \<^verbatim>\<open>_posts/2024-10-17-naive-state-machine.md\<close>\<close>

text \<open>
  The engine is the Python code of the post: the metaclass \<^verbatim>\<open>StateMachineMeta\<close>, the
  decorators \<^verbatim>\<open>action\<close> and \<^verbatim>\<open>reaction\<close> and the class \<^verbatim>\<open>StateMachine\<close>.

  Modelling decisions:
  \<^item> Machine instances are Python objects compared by identity. An instance is an
    address (\<open>iid\<close>) and the objects live in a heap, a total function from addresses to
    instance records (a reference held by a Python object is never dangling).
  \<^item> Exceptions do not undo mutations: an outcome is \<open>Done\<close> with the store the call
    returned in, or \<open>Raised\<close> with the exception and the store at the raise.
  \<^item> Calls nest without bound (an action broadcasts, a consumer reacts with an action that
    broadcasts, ...). Each engine function is written with the nested calls left open, and
    \<open>run n\<close> performs a call with a budget of \<open>n\<close> nested levels; \<open>None\<close> means the
    budget ran out.
  \<^item> A decorated function is its decoration (target or trigger state, flags, guards)
    together with its body. Bodies are sequences of statements: \<^verbatim>\<open>self.f()\<close> for an
    action \<open>f\<close> of the own class (the only thing the bodies of the post do) and an opaque
    side effect, recorded in an effect log of the store.
  \<^item> \<^verbatim>\<open>consumers\<close> is a Python set, iterated in an order that the code does not
    control. It is a duplicate-free list here, the set in its iteration order;
    \<^verbatim>\<open>set.add\<close> puts a new member last, which is one of the orders Python can produce.
    The properties of the dispatcher are stated for every store, hence for every order.
    \<^verbatim>\<open>publishers\<close> and keyword arguments are dicts, association lists here.
  \<^item> The classes of the model derive from \<^verbatim>\<open>StateMachine\<close> directly: a name is looked
    up in the class body and then among the attributes of \<^verbatim>\<open>StateMachine\<close> and of its
    instances. Actions inherited from another machine class are not modelled.
  \<^item> The \<^verbatim>\<open>print\<close> diagnostics, and \<^verbatim>\<open>self.name\<close> and \<^verbatim>\<open>__repr__\<close> which only
    they use, are left out.
\<close>

subsection \<open>Basic definitions\<close>

datatype error = TransitionError | Exception | AttributeError | TypeError

type_synonym iid = nat

type_synonym meta = "(string \<times> string) list"

record 's Transition =
  tr_source :: 's
  tr_destination :: 's
  tr_bidirectional :: bool

record 's Event =
  ev_name :: string
  ev_source :: iid
  ev_state :: 's
  ev_meta :: "meta option"

subsection \<open>Decorated functions\<close>

datatype stmt = Call string | Effect string

text \<open>
  The wrapper that \<^verbatim>\<open>@action(state, broadcast, when, unless)\<close> returns:
  \<open>fn_name\<close> is \<^verbatim>\<open>function.__name__\<close>, \<open>transitions_to\<close> and \<open>broadcast\<close> are the
  attributes \<^verbatim>\<open>__transitions_to__\<close> and \<^verbatim>\<open>__broadcast__\<close>, the guards are the
  closure variables \<^verbatim>\<open>when\<close> and \<^verbatim>\<open>unless\<close>.
\<close>

record 's action_fn =
  fn_name :: string
  transitions_to :: 's
  broadcast :: bool
  a_when :: "'s set option"
  a_unless :: "'s set option"
  a_body :: "stmt list"

text \<open>The wrapper that \<^verbatim>\<open>@reaction(state, when, unless)\<close> returns.\<close>

record 's reaction_fn =
  reacts_to :: 's
  r_when :: "'s set option"
  r_unless :: "'s set option"
  r_body :: "stmt list"

datatype 's member = ActionFn "'s action_fn" | ReactionFn "'s reaction_fn" | Other

subsection \<open>The metaclass\<close>

text \<open>
  A class created by \<^verbatim>\<open>StateMachineMeta\<close>: its name, the class attribute
  \<^verbatim>\<open>transitions\<close>, the namespace of the class body (a dict, in definition order) and the
  two registries that \<^verbatim>\<open>__new__\<close> fills.
\<close>

record 's klass =
  cname :: string
  transitions :: "'s Transition list"
  namespace :: "(string \<times> 's member) list"
  broadcast_events :: "string list"
  reactions_to_state :: "'s \<rightharpoonup> 's reaction_fn"

text \<open>The loop \<^verbatim>\<open>for name, value in namespace.items()\<close> of \<^verbatim>\<open>__new__\<close>.\<close>

fun scan_namespace :: "(string \<times> 's member) list \<Rightarrow> 's klass \<Rightarrow> error + 's klass" where
  "scan_namespace [] cls = Inr cls"
| "scan_namespace ((action_name, ActionFn f) # rest) cls =
     scan_namespace rest
       (if broadcast f
        then cls\<lparr>broadcast_events := broadcast_events cls @ [action_name]\<rparr>
        else cls)"
| "scan_namespace ((action_name, ReactionFn f) # rest) cls =
     (if reactions_to_state cls (reacts_to f) \<noteq> None then Inl Exception
      else scan_namespace rest
             (cls\<lparr>reactions_to_state := (reactions_to_state cls)(reacts_to f \<mapsto> f)\<rparr>))"
| "scan_namespace ((action_name, Other) # rest) cls = scan_namespace rest cls"

definition StateMachineMeta_new ::
  "string \<Rightarrow> 's Transition list \<Rightarrow> (string \<times> 's member) list \<Rightarrow> error + 's klass" where
  "StateMachineMeta_new name ts ns =
     scan_namespace ns
       \<lparr>cname = name, transitions = ts, namespace = ns,
        broadcast_events = [], reactions_to_state = Map.empty\<rparr>"

text \<open>
  The attributes that every instance has besides those of its class body: the methods of
  \<^verbatim>\<open>StateMachine\<close>, which all take an argument, the registries that the metaclass sets
  and the attributes that \<^verbatim>\<open>__init__\<close> sets, which are not callable (when the class
  body does not define \<^verbatim>\<open>transitions\<close>, the bare annotation gives no attribute).
\<close>

definition StateMachine_attributes :: "string list" where
  "StateMachine_attributes =
     [''register'', ''subscribe'', ''publish_event'', ''process_event'',
      ''_process_internal_event'', ''_process_external_event'', ''__init__'',
      ''broadcast_events'', ''reactions_to_state'',
      ''events'', ''state'', ''transitions_map'', ''consumers'', ''publishers'', ''name'']"

text \<open>
  Attribute lookup \<^verbatim>\<open>self.f\<close> followed by the call \<^verbatim>\<open>f()\<close> with keyword arguments
  only. An action wrapper of the class body is called. A reaction wrapper called without its
  event, another attribute of the class body, and a method or attribute of
  \<^verbatim>\<open>StateMachine\<close> raise \<^verbatim>\<open>TypeError\<close>; any other name raises
  \<^verbatim>\<open>AttributeError\<close>.
\<close>

definition lookup_action :: "'s klass \<Rightarrow> string \<Rightarrow> error + 's action_fn" where
  "lookup_action cls f =
     (case map_of (namespace cls) f of
        None \<Rightarrow> if f \<in> set StateMachine_attributes then Inl TypeError
                else Inl AttributeError
      | Some (ActionFn a) \<Rightarrow> Inr a
      | Some (ReactionFn r) \<Rightarrow> Inl TypeError
      | Some Other \<Rightarrow> Inl TypeError)"

subsection \<open>Instances and the store\<close>

record 's StateMachine =
  klass :: "'s klass"
  events :: "'s Event list"
  state :: 's
  transitions_map :: "'s \<rightharpoonup> 's list"
  consumers :: "iid list"
  publishers :: "(iid \<times> 's) list"
  extra_meta :: "meta option"

record 's store =
  heap :: "iid \<Rightarrow> 's StateMachine"
  effects :: "(iid \<times> string) list"

datatype 's outcome = Done "'s store" | Raised error "'s store"

definition on_instance ::
  "iid \<Rightarrow> ('s StateMachine \<Rightarrow> 's StateMachine) \<Rightarrow> 's store \<Rightarrow> 's store" where
  "on_instance self f \<sigma> = \<sigma>\<lparr>heap := (heap \<sigma>)(self := f (heap \<sigma> self))\<rparr>"

text \<open>
  The three assignments the dispatcher makes to an instance:
  \<^verbatim>\<open>self.events.append(event)\<close>, \<^verbatim>\<open>self.state = target_state\<close> and
  \<^verbatim>\<open>self.publishers[source] = state\<close>.
\<close>

definition append_event :: "iid \<Rightarrow> 's Event \<Rightarrow> 's store \<Rightarrow> 's store" where
  "append_event self event = on_instance self (\<lambda>m. m\<lparr>events := events m @ [event]\<rparr>)"

definition set_state :: "iid \<Rightarrow> 's \<Rightarrow> 's store \<Rightarrow> 's store" where
  "set_state self s = on_instance self (\<lambda>m. m\<lparr>state := s\<rparr>)"

definition set_publisher :: "iid \<Rightarrow> iid \<Rightarrow> 's \<Rightarrow> 's store \<Rightarrow> 's store" where
  "set_publisher self p s =
     on_instance self (\<lambda>m. m\<lparr>publishers := AList.update p s (publishers m)\<rparr>)"

text \<open>
  \<^verbatim>\<open>d.setdefault(k, []); d[k].append(v)\<close> and \<^verbatim>\<open>d.get(k, [])\<close> on the dict
  \<^verbatim>\<open>transitions_map\<close>.
\<close>

definition get_list :: "('k \<rightharpoonup> 'v list) \<Rightarrow> 'k \<Rightarrow> 'v list" where
  "get_list d k = (case d k of None \<Rightarrow> [] | Some vs \<Rightarrow> vs)"

definition setdefault_append :: "('k \<rightharpoonup> 'v list) \<Rightarrow> 'k \<Rightarrow> 'v \<Rightarrow> ('k \<rightharpoonup> 'v list)" where
  "setdefault_append d k v = d(k \<mapsto> get_list d k @ [v])"

text \<open>The loop \<^verbatim>\<open>for transition in self.transitions\<close> of \<^verbatim>\<open>__init__\<close>.\<close>

fun build_transitions_map ::
  "'s Transition list \<Rightarrow> ('s \<rightharpoonup> 's list) \<Rightarrow> ('s \<rightharpoonup> 's list)" where
  "build_transitions_map [] d = d"
| "build_transitions_map (transition # rest) d =
     (let d1 = setdefault_append d (tr_source transition) (tr_destination transition);
          d2 = (if tr_bidirectional transition
                then setdefault_append d1 (tr_destination transition) (tr_source transition)
                else d1)
      in build_transitions_map rest d2)"

text \<open>
  \<^verbatim>\<open>StateMachine.__init__\<close>: the new object. The attribute \<^verbatim>\<open>extra_meta\<close> is not set
  by the constructor (\<^verbatim>\<open>getattr(self, "extra_meta", None)\<close> gives \<^verbatim>\<open>None\<close>).
\<close>

definition StateMachine_init :: "'s klass \<Rightarrow> 's \<Rightarrow> 's StateMachine" where
  "StateMachine_init cls initial_state =
     \<lparr>klass = cls, events = [], state = initial_state,
      transitions_map = build_transitions_map (transitions cls) Map.empty,
      consumers = [], publishers = [], extra_meta = None\<rparr>"

text \<open>\<^verbatim>\<open>set.add\<close> on the duplicate-free list.\<close>

definition set_add :: "'a \<Rightarrow> 'a list \<Rightarrow> 'a list" where
  "set_add x xs = (if x \<in> set xs then xs else xs @ [x])"

fun register :: "iid \<Rightarrow> iid list \<Rightarrow> 's store \<Rightarrow> 's store" where
  "register self [] \<sigma> = \<sigma>"
| "register self (consumer # rest) \<sigma> =
     register self rest
       (on_instance self (\<lambda>m. m\<lparr>consumers := set_add consumer (consumers m)\<rparr>) \<sigma>)"

fun subscribe :: "iid \<Rightarrow> iid list \<Rightarrow> 's store \<Rightarrow> 's store" where
  "subscribe self [] \<sigma> = \<sigma>"
| "subscribe self (publisher # rest) \<sigma> =
     (let \<sigma>1 = set_publisher self publisher (state (heap \<sigma> publisher)) \<sigma>
      in subscribe self rest (register publisher [self] \<sigma>1))"

subsection \<open>Guards\<close>

text \<open>
  \<^verbatim>\<open>states = set(list(self.publishers.values()) + [self.state])\<close>, and the two tests
  that both wrappers make on it. \<^verbatim>\<open>if when and not when.intersection(states)\<close> tests the
  truthiness of \<^verbatim>\<open>when\<close> first: \<^verbatim>\<open>None\<close> and the empty set are both false.
\<close>

definition observed_states :: "'s StateMachine \<Rightarrow> 's set" where
  "observed_states m = set (map snd (publishers m) @ [state m])"

fun when_rejects :: "'s set option \<Rightarrow> 's set \<Rightarrow> bool" where
  "when_rejects None states = False"
| "when_rejects (Some w) states = (w \<noteq> {} \<and> w \<inter> states = {})"

fun unless_rejects :: "'s set option \<Rightarrow> 's set \<Rightarrow> bool" where
  "unless_rejects None states = False"
| "unless_rejects (Some u) states = (u \<noteq> {} \<and> u \<inter> states \<noteq> {})"

text \<open>\<^verbatim>\<open>kwargs.update(self.extra_meta)\<close>, done when \<^verbatim>\<open>extra_meta\<close> is truthy.\<close>

definition dict_update :: "('k \<times> 'v) list \<Rightarrow> ('k \<times> 'v) list \<Rightarrow> ('k \<times> 'v) list" where
  "dict_update d other = foldl (\<lambda>acc (k, v). AList.update k v acc) d other"

definition merge_extra_meta :: "meta option \<Rightarrow> meta \<Rightarrow> meta" where
  "merge_extra_meta em kwargs =
     (case em of None \<Rightarrow> kwargs
      | Some extra \<Rightarrow> if extra \<noteq> [] then dict_update kwargs extra else kwargs)"

subsection \<open>The dispatcher\<close>

text \<open>
  The calls that the engine makes to itself. The engine functions below take the
  function that performs a nested call as their first argument \<open>call\<close>; \<open>run\<close> closes
  the recursion and gives each nested call one unit less of the call budget.
\<close>

datatype 's call =
    Action_wrapper iid "'s action_fn" meta
  | Function_body iid "stmt list"
  | Process_event iid "'s Event"
  | Process_internal_event iid "'s Event"
  | Publish_event "iid list" "'s Event"
  | Process_external_event iid "'s Event"
  | Reaction_wrapper iid "'s reaction_fn" "'s Event"

type_synonym 's caller = "'s call \<Rightarrow> 's store \<Rightarrow> 's outcome option"

text \<open>Sequencing of two statements: the second runs if the first returned.\<close>

definition and_then ::
  "'s outcome option \<Rightarrow> ('s store \<Rightarrow> 's outcome option) \<Rightarrow> 's outcome option" where
  "and_then r k = (case r of Some (Done \<sigma>') \<Rightarrow> k \<sigma>' | _ \<Rightarrow> r)"

text \<open>\<^verbatim>\<open>wrapper(self, **kwargs)\<close> of the decorator \<^verbatim>\<open>action\<close>.\<close>

definition action_wrapper ::
  "'s caller \<Rightarrow> iid \<Rightarrow> 's action_fn \<Rightarrow> meta \<Rightarrow> 's store \<Rightarrow> 's outcome option" where
  "action_wrapper call self f kwargs \<sigma> =
     (let kwargs' = merge_extra_meta (extra_meta (heap \<sigma> self)) kwargs;
          states = observed_states (heap \<sigma> self)
      in if when_rejects (a_when f) states then Some (Done \<sigma>)
         else if unless_rejects (a_unless f) states then Some (Done \<sigma>)
         else and_then (call (Function_body self (a_body f)) \<sigma>)
                (call (Process_event self
                   \<lparr>ev_name = fn_name f, ev_source = self,
                    ev_state = transitions_to f, ev_meta = Some kwargs'\<rparr>)))"

text \<open>
  The decorated function itself, \<^verbatim>\<open>function(self, **kwargs)\<close> or
  \<^verbatim>\<open>function(self, event)\<close>: its statements in order; \<^verbatim>\<open>self.g()\<close> passes no
  keyword arguments.
\<close>

definition function_body ::
  "'s caller \<Rightarrow> iid \<Rightarrow> stmt list \<Rightarrow> 's store \<Rightarrow> 's outcome option" where
  "function_body call self body \<sigma> =
     (case body of
        [] \<Rightarrow> Some (Done \<sigma>)
      | Effect l # rest \<Rightarrow>
          call (Function_body self rest) (\<sigma>\<lparr>effects := effects \<sigma> @ [(self, l)]\<rparr>)
      | Call g # rest \<Rightarrow>
          (case lookup_action (klass (heap \<sigma> self)) g of
             Inl e \<Rightarrow> Some (Raised e \<sigma>)
           | Inr a \<Rightarrow>
               and_then (call (Action_wrapper self a []) \<sigma>)
                 (call (Function_body self rest))))"

text \<open>\<^verbatim>\<open>StateMachine.process_event\<close>.\<close>

definition process_event ::
  "'s caller \<Rightarrow> iid \<Rightarrow> 's Event \<Rightarrow> 's store \<Rightarrow> 's outcome option" where
  "process_event call self event \<sigma> =
     (let \<sigma>1 = append_event self event \<sigma>
      in if ev_source event = self then call (Process_internal_event self event) \<sigma>1
         else call (Process_external_event self event) \<sigma>1)"

text \<open>\<^verbatim>\<open>StateMachine._process_internal_event\<close>.\<close>

definition process_internal_event ::
  "'s caller \<Rightarrow> iid \<Rightarrow> 's Event \<Rightarrow> 's store \<Rightarrow> 's outcome option" where
  "process_internal_event call self event \<sigma> =
     (let target_state = ev_state event
      in if state (heap \<sigma> self) = target_state then Some (Done \<sigma>)
         else if target_state
                 \<in> set (get_list (transitions_map (heap \<sigma> self)) (state (heap \<sigma> self)))
         then (let \<sigma>1 = set_state self target_state \<sigma>
               in if ev_name event \<in> set (broadcast_events (klass (heap \<sigma>1 self)))
                  then call (Publish_event (consumers (heap \<sigma>1 self))
                         \<lparr>ev_name = ev_name event, ev_source = self,
                          ev_state = state (heap \<sigma>1 self), ev_meta = ev_meta event\<rparr>) \<sigma>1
                  else Some (Done \<sigma>1))
         else Some (Raised TransitionError \<sigma>))"

text \<open>
  \<^verbatim>\<open>StateMachine.publish_event\<close>: the loop over \<^verbatim>\<open>self.consumers\<close>, here over the
  members still to be served.
\<close>

definition publish_event ::
  "'s caller \<Rightarrow> iid list \<Rightarrow> 's Event \<Rightarrow> 's store \<Rightarrow> 's outcome option" where
  "publish_event call cs event \<sigma> =
     (case cs of
        [] \<Rightarrow> Some (Done \<sigma>)
      | consumer # rest \<Rightarrow>
          and_then (call (Process_event consumer event) \<sigma>)
            (call (Publish_event rest event)))"

text \<open>\<^verbatim>\<open>StateMachine._process_external_event\<close>.\<close>

definition process_external_event ::
  "'s caller \<Rightarrow> iid \<Rightarrow> 's Event \<Rightarrow> 's store \<Rightarrow> 's outcome option" where
  "process_external_event call self event \<sigma> =
     (let \<sigma>1 = set_publisher self (ev_source event) (ev_state event) \<sigma>
      in case reactions_to_state (klass (heap \<sigma>1 self)) (ev_state event) of
           None \<Rightarrow> Some (Done \<sigma>1)
         | Some reaction_fn \<Rightarrow> call (Reaction_wrapper self reaction_fn event) \<sigma>1)"

text \<open>\<^verbatim>\<open>wrapper(self, event)\<close> of the decorator \<^verbatim>\<open>reaction\<close>.\<close>

definition reaction_wrapper ::
  "'s caller \<Rightarrow> iid \<Rightarrow> 's reaction_fn \<Rightarrow> 's Event \<Rightarrow> 's store \<Rightarrow> 's outcome option" where
  "reaction_wrapper call self f event \<sigma> =
     (let states = observed_states (heap \<sigma> self)
      in if when_rejects (r_when f) states then Some (Done \<sigma>)
         else if unless_rejects (r_unless f) states then Some (Done \<sigma>)
         else call (Function_body self (r_body f)) \<sigma>)"

fun dispatch :: "'s caller \<Rightarrow> 's call \<Rightarrow> 's store \<Rightarrow> 's outcome option" where
  "dispatch call (Action_wrapper self f kwargs) = action_wrapper call self f kwargs"
| "dispatch call (Function_body self body) = function_body call self body"
| "dispatch call (Process_event self event) = process_event call self event"
| "dispatch call (Process_internal_event self event) = process_internal_event call self event"
| "dispatch call (Publish_event cs event) = publish_event call cs event"
| "dispatch call (Process_external_event self event) = process_external_event call self event"
| "dispatch call (Reaction_wrapper self f event) = reaction_wrapper call self f event"

primrec run :: "nat \<Rightarrow> 's call \<Rightarrow> 's store \<Rightarrow> 's outcome option" where
  "run 0 = (\<lambda>c \<sigma>. None)"
| "run (Suc n) = dispatch (run n)"

text \<open>
  A call from the driving code, \<^verbatim>\<open>machine.g()\<close> with keyword arguments: attribute lookup, then the
  wrapper.
\<close>

definition invoke :: "nat \<Rightarrow> iid \<Rightarrow> string \<Rightarrow> meta \<Rightarrow> 's store \<Rightarrow> 's outcome option" where
  "invoke n self g kwargs \<sigma> =
     (case lookup_action (klass (heap \<sigma> self)) g of
        Inl e \<Rightarrow> Some (Raised e \<sigma>)
      | Inr a \<Rightarrow> run n (Action_wrapper self a kwargs) \<sigma>)"

subsection \<open>The machines of the post\<close>

text \<open>
  The state enumerations of the post and its classes \<^verbatim>\<open>TrafficLight\<close> and
  \<^verbatim>\<open>Cyclist\<close>, as inputs for the scenarios: the class attribute \<^verbatim>\<open>transitions\<close> and
  the decorated functions of the class body. The bodies of the actions are \<^verbatim>\<open>...\<close>, the
  bodies of the reactions call one action. \<^verbatim>\<open>CyclistState.STOPPED\<close> and
  \<^verbatim>\<open>PoliceCarState.STOPPED\<close> are different members.
\<close>

datatype TrafficLightState = GREEN | YELLOW | RED

datatype CyclistState = CYCLING | STOPPED

datatype PoliceCarState = ROLLING | STOPPED | CHASING

datatype State =
    TrafficLightState TrafficLightState
  | CyclistState CyclistState
  | PoliceCarState PoliceCarState

definition plain_action :: "string \<Rightarrow> State \<Rightarrow> bool \<Rightarrow> State action_fn" where
  "plain_action f s b =
     \<lparr>fn_name = f, transitions_to = s, broadcast = b,
      a_when = None, a_unless = None, a_body = []\<rparr>"

definition TrafficLight_namespace :: "(string \<times> State member) list" where
  "TrafficLight_namespace =
     [(''transitions'', Other),
      (''green'', ActionFn (plain_action ''green'' (TrafficLightState GREEN) True)),
      (''yellow'', ActionFn (plain_action ''yellow'' (TrafficLightState YELLOW) True)),
      (''red'', ActionFn (plain_action ''red'' (TrafficLightState RED) True))]"

definition TrafficLight_transitions :: "State Transition list" where
  "TrafficLight_transitions =
     [\<lparr>tr_source = TrafficLightState GREEN, tr_destination = TrafficLightState YELLOW,
       tr_bidirectional = False\<rparr>,
      \<lparr>tr_source = TrafficLightState YELLOW, tr_destination = TrafficLightState RED,
       tr_bidirectional = False\<rparr>,
      \<lparr>tr_source = TrafficLightState RED, tr_destination = TrafficLightState GREEN,
       tr_bidirectional = False\<rparr>]"

definition Cyclist_transitions :: "State Transition list" where
  "Cyclist_transitions =
     [\<lparr>tr_source = CyclistState CyclistState.STOPPED, tr_destination = CyclistState CYCLING,
       tr_bidirectional = False\<rparr>,
      \<lparr>tr_source = CyclistState CYCLING, tr_destination = CyclistState CyclistState.STOPPED,
       tr_bidirectional = False\<rparr>]"

definition cycle_fast :: "State action_fn" where
  "cycle_fast =
     \<lparr>fn_name = ''cycle_fast'', transitions_to = CyclistState CYCLING, broadcast = False,
      a_when = Some {TrafficLightState GREEN, TrafficLightState YELLOW},
      a_unless = Some {PoliceCarState CHASING}, a_body = []\<rparr>"

definition cycle_slow :: "State action_fn" where
  "cycle_slow =
     \<lparr>fn_name = ''cycle_slow'', transitions_to = CyclistState CYCLING, broadcast = False,
      a_when = Some {TrafficLightState GREEN},
      a_unless = Some {PoliceCarState CHASING}, a_body = []\<rparr>"

definition reacting_with :: "State \<Rightarrow> string \<Rightarrow> State reaction_fn" where
  "reacting_with s g = \<lparr>reacts_to = s, r_when = None, r_unless = None, r_body = [Call g]\<rparr>"

definition Cyclist_namespace :: "(string \<times> State member) list" where
  "Cyclist_namespace =
     [(''transitions'', Other),
      (''cycle_fast'', ActionFn cycle_fast),
      (''cycle_slow'', ActionFn cycle_slow),
      (''stop'', ActionFn (plain_action ''stop'' (CyclistState CyclistState.STOPPED) False)),
      (''on_green_light'', ReactionFn (reacting_with (TrafficLightState GREEN) ''cycle_slow'')),
      (''on_red_light'', ReactionFn (reacting_with (TrafficLightState RED) ''stop'')),
      (''on_being_chased'', ReactionFn (reacting_with (PoliceCarState CHASING) ''stop''))]"

definition TrafficLight :: "State klass" where
  "TrafficLight =
     projr (StateMachineMeta_new ''TrafficLight'' TrafficLight_transitions TrafficLight_namespace)"

definition Cyclist :: "State klass" where
  "Cyclist = projr (StateMachineMeta_new ''Cyclist'' Cyclist_transitions Cyclist_namespace)"

definition traffic_light :: iid where
  "traffic_light = 0"

definition cyclist :: iid where
  "cyclist = 1"

text \<open>
  The wiring of Scenario B without the police car: a traffic light and a cyclist in given
  initial states, and \<^verbatim>\<open>cyclist.subscribe([traffic_light])\<close>. Addresses that the
  scenario does not use hold objects that nothing refers to.
\<close>

definition scenario_store :: "State \<Rightarrow> State \<Rightarrow> State store" where
  "scenario_store light0 cyclist0 =
     subscribe cyclist [traffic_light]
       \<lparr>heap = (\<lambda>_. StateMachine_init TrafficLight light0)
                 (cyclist := StateMachine_init Cyclist cyclist0),
        effects = []\<rparr>"

text \<open>
  The driving code: the calls \<^verbatim>\<open>machine.g()\<close> in order; the state of the watched
  instance is read after each call that returns, and an exception ends the script.
\<close>

fun drive :: "nat \<Rightarrow> (iid \<times> string) list \<Rightarrow> iid \<Rightarrow> 's store \<Rightarrow> (error + 's list) option" where
  "drive n [] watched \<sigma> = Some (Inr [])"
| "drive n ((machine, g) # rest) watched \<sigma> =
     (case invoke n machine g [] \<sigma> of
        None \<Rightarrow> None
      | Some (Raised e \<sigma>') \<Rightarrow> Some (Inl e)
      | Some (Done \<sigma>') \<Rightarrow>
          (case drive n rest watched \<sigma>' of
             Some (Inr seen) \<Rightarrow> Some (Inr (state (heap \<sigma>' watched) # seen))
           | r \<Rightarrow> r))"

subsection \<open>Notions used to state the properties\<close>

definition store_of :: "'s outcome \<Rightarrow> 's store" where
  "store_of r = (case r of Done \<sigma> \<Rightarrow> \<sigma> | Raised e \<sigma> \<Rightarrow> \<sigma>)"

text \<open>The state of an instance after a call, whether the call returned or raised.\<close>

definition final_state :: "'s outcome option \<Rightarrow> iid \<Rightarrow> 's option" where
  "final_state r i = map_option (\<lambda>out. state (heap (store_of out) i)) r"

definition final_events :: "'s outcome option \<Rightarrow> iid \<Rightarrow> 's Event list option" where
  "final_events r i = map_option (\<lambda>out. events (heap (store_of out) i)) r"

definition final_effects :: "'s outcome option \<Rightarrow> (iid \<times> string) list option" where
  "final_effects r = map_option (\<lambda>out. effects (store_of out)) r"

text \<open>The event that the wrapper of action \<open>f\<close> hands to \<^verbatim>\<open>process_event\<close>.\<close>

definition action_event :: "iid \<Rightarrow> 's action_fn \<Rightarrow> meta \<Rightarrow> 's store \<Rightarrow> 's Event" where
  "action_event self f kwargs \<sigma> =
     \<lparr>ev_name = fn_name f, ev_source = self, ev_state = transitions_to f,
      ev_meta = Some (merge_extra_meta (extra_meta (heap \<sigma> self)) kwargs)\<rparr>"

text \<open>The reaction wrappers of a namespace that are bound to trigger state \<open>s\<close>.\<close>

definition reactions_for :: "'s \<Rightarrow> (string \<times> 's member) list \<Rightarrow> 's reaction_fn list" where
  "reactions_for s ns =
     concat (map (\<lambda>(k, v). case v of
                    ReactionFn r \<Rightarrow> if reacts_to r = s then [r] else []
                  | _ \<Rightarrow> []) ns)"

text \<open>One caller answers wherever another does, with the same outcome.\<close>

definition le_caller :: "'s caller \<Rightarrow> 's caller \<Rightarrow> bool" where
  "le_caller c1 c2 = (\<forall>c \<sigma> r. c1 c \<sigma> = Some r \<longrightarrow> c2 c \<sigma> = Some r)"

definition scenario_script :: "(iid \<times> string) list" where
  "scenario_script =
     [(traffic_light, ''red''), (traffic_light, ''green''), (traffic_light, ''yellow'')]"

text \<open>The exception a call ended with, if any.\<close>

definition exception_of :: "'s outcome \<Rightarrow> error option" where
  "exception_of r = (case r of Done \<sigma> \<Rightarrow> None | Raised e \<sigma> \<Rightarrow> Some e)"

definition final_exception :: "'s outcome option \<Rightarrow> error option option" where
  "final_exception r = map_option exception_of r"

text \<open>Two actions of the post by name, for use as inputs.\<close>

definition TrafficLight_red :: "State action_fn" where
  "TrafficLight_red = plain_action ''red'' (TrafficLightState RED) True"


definition Cyclist_stop :: "State action_fn" where
  "Cyclist_stop = plain_action ''stop'' (CyclistState CyclistState.STOPPED) False"

text \<open>
  The instances a call is made on, and the instances downstream of a set of instances: those
  reachable along \<^verbatim>\<open>consumers\<close>.
\<close>

fun targets :: "'s call \<Rightarrow> iid set" where
  "targets (Action_wrapper self f kwargs) = {self}"
| "targets (Function_body self body) = {self}"
| "targets (Process_event self event) = {self}"
| "targets (Process_internal_event self event) = {self}"
| "targets (Publish_event cs event) = set cs"
| "targets (Process_external_event self event) = {self}"
| "targets (Reaction_wrapper self f event) = {self}"

definition consumer_edges :: "'s store \<Rightarrow> (iid \<times> iid) set" where
  "consumer_edges \<sigma> = {(a, b). b \<in> set (consumers (heap \<sigma> a))}"

definition downstream :: "'s store \<Rightarrow> iid set \<Rightarrow> iid set" where
  "downstream \<sigma> X = (consumer_edges \<sigma>)\<^sup>* `` X"

definition same_wiring :: "'s store \<Rightarrow> 's store \<Rightarrow> bool" where
  "same_wiring \<sigma> \<sigma>' = (\<forall>j. consumers (heap \<sigma>' j) = consumers (heap \<sigma> j))"

text \<open>
  The events in the log of an instance that carry a given source, and the events with that
  source that a call hands to instance \<open>j\<close> itself (not through nested calls).
\<close>

definition from_source :: "iid \<Rightarrow> 's StateMachine \<Rightarrow> 's Event list" where
  "from_source s m = filter (\<lambda>e. ev_source e = s) (events m)"


fun delivered :: "iid \<Rightarrow> 's call \<Rightarrow> iid \<Rightarrow> 's Event list" where
  "delivered s (Publish_event cs event) j =
     (if ev_source event = s then replicate (count_list cs j) event else [])"
| "delivered s (Process_event self event) j =
     (if ev_source event = s \<and> j = self then [event] else [])"
| "delivered s c j = []"

text \<open>
  What every outcome of a call satisfies: no \<^verbatim>\<open>consumers\<close> set has changed, instances
  that are not downstream of the call's targets are untouched, and the logs have grown, for a
  source that is not downstream, by exactly the events the call delivers itself.
\<close>

definition sound_outcome :: "'s call \<Rightarrow> 's store \<Rightarrow> 's outcome \<Rightarrow> bool" where
  "sound_outcome c \<sigma> r =
     (same_wiring \<sigma> (store_of r) \<and>
      (\<forall>j. j \<notin> downstream \<sigma> (targets c) \<longrightarrow> heap (store_of r) j = heap \<sigma> j) \<and>
      (\<forall>s \<sigma>'. s \<notin> downstream \<sigma> (targets c) \<longrightarrow> r = Done \<sigma>' \<longrightarrow>
         (\<forall>j. from_source s (heap \<sigma>' j) = from_source s (heap \<sigma> j) @ delivered s c j)))"

definition well_behaved :: "'s caller \<Rightarrow> bool" where
  "well_behaved call = (\<forall>c \<sigma> r. call c \<sigma> = Some r \<longrightarrow> sound_outcome c \<sigma> r)"

text \<open>
  When a call has raised: the events with source \<open>s\<close> that the call had handed to instance
  \<open>j\<close> itself by then. A fan-out that raised has served the first \<open>k\<close> members, the last
  of them being the one whose processing raised.
\<close>

fun handed :: "iid \<Rightarrow> 's call \<Rightarrow> nat \<Rightarrow> iid \<Rightarrow> 's Event list" where
  "handed s (Publish_event cs event) k j =
     (if ev_source event = s then replicate (count_list (take k cs) j) event else [])"
| "handed s (Process_event self event) k j =
     (if ev_source event = s \<and> j = self then [event] else [])"
| "handed s c k j = []"

fun served_within :: "'s call \<Rightarrow> nat \<Rightarrow> bool" where
  "served_within (Publish_event cs event) k = (0 < k \<and> k \<le> length cs)"
| "served_within c k = True"












section \<open>Properties\<close>

subsection \<open>The example classes, and the call budget\<close>


lemma Cyclist_declared:
  "StateMachineMeta_new ''Cyclist'' Cyclist_transitions Cyclist_namespace = Inr Cyclist"
  by (simp add: Cyclist_def StateMachineMeta_new_def Cyclist_namespace_def plain_action_def
      reacting_with_def cycle_fast_def cycle_slow_def)

lemma TrafficLight_fields:
  "namespace TrafficLight = TrafficLight_namespace"
  "transitions TrafficLight = TrafficLight_transitions"
  "broadcast_events TrafficLight = [''green'', ''yellow'', ''red'']"
  "reactions_to_state TrafficLight = Map.empty"
  by (simp_all add: TrafficLight_def StateMachineMeta_new_def TrafficLight_namespace_def plain_action_def)

lemma Cyclist_fields:
  "namespace Cyclist = Cyclist_namespace"
  "transitions Cyclist = Cyclist_transitions"
  "broadcast_events Cyclist = []"
  "reactions_to_state Cyclist =
     [TrafficLightState GREEN \<mapsto> reacting_with (TrafficLightState GREEN) ''cycle_slow'',
      TrafficLightState RED \<mapsto> reacting_with (TrafficLightState RED) ''stop'',
      PoliceCarState CHASING \<mapsto> reacting_with (PoliceCarState CHASING) ''stop'']"
  by (simp_all add: Cyclist_def StateMachineMeta_new_def Cyclist_namespace_def plain_action_def
      reacting_with_def cycle_fast_def cycle_slow_def)


lemma le_caller_refl: "le_caller c c"
  by (simp add: le_caller_def)

lemma le_callerD: "le_caller c1 c2 \<Longrightarrow> c1 c \<sigma> = Some r \<Longrightarrow> c2 c \<sigma> = Some r"
  by (simp add: le_caller_def)

lemma and_then_mono:
  assumes "le_caller c1 c2" and "and_then (c1 a \<sigma>) (c1 b) = Some r"
  shows "and_then (c2 a \<sigma>) (c2 b) = Some r"
proof (cases "c1 a \<sigma>")
  case None
  with assms(2) show ?thesis by (simp add: and_then_def)
next
  case (Some out)
  then have *: "c2 a \<sigma> = Some out" using assms(1) by (rule le_callerD[rotated])
  show ?thesis
  proof (cases out)
    case (Done \<sigma>')
    with Some assms(2) have "c1 b \<sigma>' = Some r" by (simp add: and_then_def)
    then have "c2 b \<sigma>' = Some r" using assms(1) by (rule le_callerD[rotated])
    with * Done show ?thesis by (simp add: and_then_def)
  next
    case (Raised e \<sigma>')
    with Some assms(2) * show ?thesis by (auto simp: and_then_def)
  qed
qed

lemma dispatch_mono:
  assumes le: "le_caller c1 c2"
  shows "le_caller (dispatch c1) (dispatch c2)"
  unfolding le_caller_def
proof (intro allI impI)
  fix c \<sigma> r
  assume run: "dispatch c1 c \<sigma> = Some r"
  note D = le_callerD[OF le] and A = and_then_mono[OF le]
  show "dispatch c2 c \<sigma> = Some r"
  proof (cases c)
    case (Action_wrapper self f kwargs)
    with run show ?thesis
      by (auto simp: action_wrapper_def Let_def intro: A split: if_splits)
  next
    case (Function_body self body)
    with run show ?thesis
      by (auto simp: function_body_def intro: A D split: list.splits stmt.splits sum.splits)
  next
    case (Process_event self event)
    with run show ?thesis
      by (auto simp: process_event_def Let_def intro: D split: if_splits)
  next
    case (Process_internal_event self event)
    with run show ?thesis
      by (auto simp: process_internal_event_def Let_def intro: D split: if_splits)
  next
    case (Publish_event cs event)
    with run show ?thesis
      by (auto simp: publish_event_def intro: A split: list.splits)
  next
    case (Process_external_event self event)
    with run show ?thesis
      by (auto simp: process_external_event_def Let_def intro: D split: option.splits)
  next
    case (Reaction_wrapper self f event)
    with run show ?thesis
      by (auto simp: reaction_wrapper_def Let_def intro: D split: if_splits)
  qed
qed

lemma run_le_Suc: "le_caller (run n) (run (Suc n))"
proof (induction n)
  case 0
  show ?case by (simp add: le_caller_def)
next
  case (Suc n)
  then show ?case using dispatch_mono by simp
qed

lemma le_caller_trans: "le_caller a b \<Longrightarrow> le_caller b c \<Longrightarrow> le_caller a c"
  by (simp add: le_caller_def)

lemma run_le: "n \<le> m \<Longrightarrow> le_caller (run n) (run m)"
proof (induction m)
  case 0
  then show ?case by (simp add: le_caller_refl)
next
  case (Suc m)
  show ?case
  proof (cases "n = Suc m")
    case True
    then show ?thesis by (simp add: le_caller_refl)
  next
    case False
    with Suc.prems have "n \<le> m" by simp
    from Suc.IH[OF this] show ?thesis by (rule le_caller_trans[OF _ run_le_Suc])
  qed
qed

lemma run_mono: "run n c \<sigma> = Some r \<Longrightarrow> n \<le> m \<Longrightarrow> run m c \<sigma> = Some r"
  by (rule le_callerD[OF run_le])

lemma invoke_mono: "invoke n self g kwargs \<sigma> = Some r \<Longrightarrow> n \<le> m \<Longrightarrow> invoke m self g kwargs \<sigma> = Some r"
  by (auto simp: invoke_def intro: run_mono split: sum.splits)

lemma drive_mono: "drive n script watched \<sigma> = Some r \<Longrightarrow> n \<le> m \<Longrightarrow> drive m script watched \<sigma> = Some r"
proof (induction script arbitrary: \<sigma> r)
  case Nil
  then show ?case by simp
next
  case (Cons a script)
  obtain machine g where a: "a = (machine, g)" by (cases a)
  from Cons.prems(1) obtain out where out: "invoke n machine g [] \<sigma> = Some out"
    by (auto simp: a split: option.splits)
  then have out': "invoke m machine g [] \<sigma> = Some out"
    using Cons.prems(2) by (rule invoke_mono)
  show ?case
  proof (cases out)
    case (Raised e \<sigma>')
    with Cons.prems(1) out out' show ?thesis by (simp add: a)
  next
    case (Done \<sigma>')
    with Cons.prems(1) out obtain r' where r': "drive n script watched \<sigma>' = Some r'"
      by (auto simp: a split: option.splits)
    then have "drive m script watched \<sigma>' = Some r'" using Cons.prems(2) by (rule Cons.IH)
    with Cons.prems(1) out out' Done r' show ?thesis by (simp add: a)
  qed
qed

lemma reactions_for_simps:
  "reactions_for s [] = []"
  "reactions_for s ((k, ActionFn a) # ns) = reactions_for s ns"
  "reactions_for s ((k, Other) # ns) = reactions_for s ns"
  "reactions_for s ((k, ReactionFn r) # ns) =
     (if reacts_to r = s then r # reactions_for s ns else reactions_for s ns)"
  by (simp_all add: reactions_for_def)

lemma scan_namespace_registered:
  "scan_namespace ns cls = Inr cls' \<Longrightarrow> reactions_to_state cls s = Some r0 \<Longrightarrow>
     reactions_for s ns = [] \<and> reactions_to_state cls' s = Some r0"
proof (induction ns cls rule: scan_namespace.induct)
  case (3 action_name f rest cls)
  then show ?case by (auto simp: reactions_for_simps split: if_splits)
qed (auto simp: reactions_for_simps split: if_splits)

lemma scan_namespace_fresh:
  "scan_namespace ns cls = Inr cls' \<Longrightarrow> reactions_to_state cls s = None \<Longrightarrow>
     length (reactions_for s ns) \<le> 1 \<and>
     reactions_to_state cls' s = (case reactions_for s ns of [] \<Rightarrow> None | r # _ \<Rightarrow> Some r)"
proof (induction ns cls rule: scan_namespace.induct)
  case (3 action_name f rest cls)
  show ?case
  proof (cases "reacts_to f = s")
    case True
    with 3 have ok: "scan_namespace rest (cls\<lparr>reactions_to_state := (reactions_to_state cls)(reacts_to f \<mapsto> f)\<rparr>) = Inr cls'"
      by (simp split: if_splits)
    from scan_namespace_registered[OF ok, of s f] True
    show ?thesis by (simp add: reactions_for_simps)
  next
    case False
    with 3 show ?thesis by (auto simp: reactions_for_simps split: if_splits)
  qed
qed (auto simp: reactions_for_simps split: if_splits)

lemma scan_namespace_error: "scan_namespace ns cls = Inl e \<Longrightarrow> e = Exception"
  by (induction ns cls rule: scan_namespace.induct) (auto split: if_splits)

text \<open>
  Claim C8. A namespace with two reaction wrappers bound to the same trigger state makes
  \<^verbatim>\<open>StateMachineMeta.__new__\<close> raise: no class comes out, and an instance needs its
  class (\<open>StateMachine_init\<close> takes it), so none can exist. A class that was created has
  at most one reaction wrapper per trigger state in its namespace, and
  \<^verbatim>\<open>reactions_to_state\<close> holds exactly that one.
\<close>

theorem one_reaction_per_state:
  "(2 \<le> length (reactions_for s ns) \<longrightarrow> StateMachineMeta_new name ts ns = Inl Exception) \<and>
   (StateMachineMeta_new name ts ns = Inr cls \<longrightarrow>
      length (reactions_for s ns) \<le> 1 \<and>
      reactions_to_state cls s = (case reactions_for s ns of [] \<Rightarrow> None | r # _ \<Rightarrow> Some r))"
proof (cases "StateMachineMeta_new name ts ns")
  case (Inl e)
  then show ?thesis
    by (auto simp: StateMachineMeta_new_def dest: scan_namespace_error)
next
  case (Inr c)
  then have "scan_namespace ns
       \<lparr>cname = name, transitions = ts, namespace = ns,
        broadcast_events = [], reactions_to_state = Map.empty\<rparr> = Inr c"
    by (simp add: StateMachineMeta_new_def)
  from scan_namespace_fresh[OF this, of s] Inr show ?thesis
    by auto
qed

text \<open>
  Claim C10. A \<^verbatim>\<open>when\<close> that is the empty set never rejects, and an \<^verbatim>\<open>unless\<close> that
  is the empty set never blocks: for both wrappers the empty set behaves as an absent guard,
  with any call budget.
\<close>

theorem empty_guard_set_is_absent_guard:
  "run n (Action_wrapper self (f\<lparr>a_when := Some {}\<rparr>) kwargs) \<sigma>
     = run n (Action_wrapper self (f\<lparr>a_when := None\<rparr>) kwargs) \<sigma> \<and>
   run n (Action_wrapper self (f\<lparr>a_unless := Some {}\<rparr>) kwargs) \<sigma>
     = run n (Action_wrapper self (f\<lparr>a_unless := None\<rparr>) kwargs) \<sigma> \<and>
   run n (Reaction_wrapper self (g\<lparr>r_when := Some {}\<rparr>) event) \<sigma>
     = run n (Reaction_wrapper self (g\<lparr>r_when := None\<rparr>) event) \<sigma> \<and>
   run n (Reaction_wrapper self (g\<lparr>r_unless := Some {}\<rparr>) event) \<sigma>
     = run n (Reaction_wrapper self (g\<lparr>r_unless := None\<rparr>) event) \<sigma> \<and>
   \<not> when_rejects (Some {}) states \<and> \<not> unless_rejects (Some {}) states"
  by (cases n) (simp_all add: action_wrapper_def reaction_wrapper_def Let_def)

lemma on_instance_heap:
  "heap (on_instance self f \<sigma>) j = (if j = self then f (heap \<sigma> self) else heap \<sigma> j)"
  by (simp add: on_instance_def)

lemma register_heap:
  "heap (register self cs \<sigma>) j =
     (if j = self then (heap \<sigma> self)\<lparr>consumers := foldl (\<lambda>acc c. set_add c acc) (consumers (heap \<sigma> self)) cs\<rparr>
      else heap \<sigma> j)"
  by (induction cs arbitrary: \<sigma>) (simp_all add: on_instance_heap)

lemma register_effects: "effects (register self cs \<sigma>) = effects \<sigma>"
  by (induction cs arbitrary: \<sigma>) (simp_all add: on_instance_def)

lemma set_foldl_set_add: "set (foldl (\<lambda>acc c. set_add c acc) xs cs) = set xs \<union> set cs"
  by (induction cs arbitrary: xs) (auto simp: set_add_def)

lemma foldl_set_add_absorb:
  "set cs \<subseteq> set xs \<Longrightarrow> foldl (\<lambda>acc c. set_add c acc) xs cs = xs"
  by (induction cs arbitrary: xs) (auto simp: set_add_def)

lemma distinct_foldl_set_add:
  "distinct xs \<Longrightarrow> distinct (foldl (\<lambda>acc c. set_add c acc) xs cs)"
  by (induction cs arbitrary: xs) (auto simp: set_add_def)

lemma store_eqI: "heap \<sigma> = heap \<sigma>' \<Longrightarrow> effects \<sigma> = effects \<sigma>' \<Longrightarrow> (\<sigma> :: 's store) = \<sigma>'"
  by simp

lemma register_idem: "register self cs (register self cs \<sigma>) = register self cs \<sigma>"
proof (rule store_eqI)
  show "heap (register self cs (register self cs \<sigma>)) = heap (register self cs \<sigma>)"
    by (rule ext) (simp add: register_heap foldl_set_add_absorb set_foldl_set_add)
qed (simp add: register_effects)

lemma register_member: "set cs \<subseteq> set (consumers (heap \<sigma> self)) \<Longrightarrow> register self cs \<sigma> = \<sigma>"
proof (rule store_eqI)
  assume "set cs \<subseteq> set (consumers (heap \<sigma> self))"
  then show "heap (register self cs \<sigma>) = heap \<sigma>"
    by (intro ext) (simp add: register_heap foldl_set_add_absorb)
qed (simp add: register_effects)

lemma set_set_add: "set (set_add x xs) = insert x (set xs)"
  by (auto simp: set_add_def)

text \<open>
  Claim C9. For two instances \<open>a\<close> and \<open>b\<close>, \<^verbatim>\<open>a.subscribe([b])\<close> stores the current
  state of \<open>b\<close> under \<^verbatim>\<open>a.publishers[b]\<close> and then is \<^verbatim>\<open>b.register([a])\<close>: afterwards
  \<open>a\<close> is among the consumers of \<open>b\<close> and the consumers of \<open>a\<close> are what they were.
  \<^verbatim>\<open>register\<close> unions the given instances into the consumers; registering twice is
  registering once, and registering a consumer that is already a member changes nothing.
\<close>

theorem subscribe_then_register:
  "a \<noteq> b \<longrightarrow>
     subscribe a [b] \<sigma> = register b [a] (set_publisher a b (state (heap \<sigma> b)) \<sigma>) \<and>
     map_of (publishers (heap (subscribe a [b] \<sigma>) a)) b = Some (state (heap \<sigma> b)) \<and>
     set (consumers (heap (subscribe a [b] \<sigma>) b)) = insert a (set (consumers (heap \<sigma> b))) \<and>
     consumers (heap (subscribe a [b] \<sigma>) a) = consumers (heap \<sigma> a) \<and>
     set (consumers (heap (register b cs \<sigma>) b)) = set (consumers (heap \<sigma> b)) \<union> set cs \<and>
     register b cs (register b cs \<sigma>) = register b cs \<sigma> \<and>
     (a \<in> set (consumers (heap \<sigma> b)) \<longrightarrow> register b [a] \<sigma> = \<sigma>)"
  using register_member[of "[a]" \<sigma> b]
  by (simp add: register_heap on_instance_heap set_foldl_set_add register_idem set_set_add
        set_publisher_def update_conv' Let_def del: register.simps)

lemma observed_states_insert:
  "observed_states m = insert (state m) (snd ` set (publishers m))"
  by (auto simp: observed_states_def)

lemma when_rejects_iff:
  "when_rejects w S \<longleftrightarrow> (\<exists>W. w = Some W \<and> W \<noteq> {} \<and> W \<inter> S = {})"
  by (cases w) auto

lemma unless_rejects_iff:
  "unless_rejects u S \<longleftrightarrow> (\<exists>U. u = Some U \<and> U \<inter> S \<noteq> {})"
  by (cases u) auto

lemma action_wrapper_guard:
  "run (Suc n) (Action_wrapper self f kwargs) \<sigma> =
     (if \<exists>W. a_when f = Some W \<and> W \<noteq> {} \<and> W \<inter> observed_states (heap \<sigma> self) = {}
      then Some (Done \<sigma>)
      else if \<exists>U. a_unless f = Some U \<and> U \<inter> observed_states (heap \<sigma> self) \<noteq> {}
      then Some (Done \<sigma>)
      else and_then (run n (Function_body self (a_body f)) \<sigma>)
             (run n (Process_event self (action_event self f kwargs \<sigma>))))"
  unfolding when_rejects_iff[symmetric] unless_rejects_iff[symmetric]
  by (simp add: action_wrapper_def Let_def action_event_def)

lemma reaction_wrapper_guard:
  "run (Suc n) (Reaction_wrapper self g event) \<sigma> =
     (if \<exists>W. r_when g = Some W \<and> W \<noteq> {} \<and> W \<inter> observed_states (heap \<sigma> self) = {}
      then Some (Done \<sigma>)
      else if \<exists>U. r_unless g = Some U \<and> U \<inter> observed_states (heap \<sigma> self) \<noteq> {}
      then Some (Done \<sigma>)
      else run n (Function_body self (r_body g)) \<sigma>)"
  unfolding when_rejects_iff[symmetric] unless_rejects_iff[symmetric]
  by (simp add: reaction_wrapper_def Let_def)

lemma action_when_unless_same:
  "a_when f = Some {A} \<Longrightarrow> a_unless f = Some {A} \<Longrightarrow> A \<in> observed_states (heap \<sigma> self) \<Longrightarrow>
     run (Suc n) (Action_wrapper self f kwargs) \<sigma> = Some (Done \<sigma>)"
  by (simp add: action_wrapper_def Let_def)

lemma reaction_when_unless_same:
  "r_when g = Some {A} \<Longrightarrow> r_unless g = Some {A} \<Longrightarrow> A \<in> observed_states (heap \<sigma> self) \<Longrightarrow>
     run (Suc n) (Reaction_wrapper self g event) \<sigma> = Some (Done \<sigma>)"
  by (simp add: reaction_wrapper_def Let_def)

text \<open>
  Claim C3, amended. The guards are evaluated over the current state together with the last
  known state of each publisher, in this order: a \<^verbatim>\<open>when\<close> that is present, not empty
  and disjoint from that set rejects; otherwise an \<^verbatim>\<open>unless\<close> that is present and meets the
  set rejects; otherwise the wrapper goes on to the body. With \<^verbatim>\<open>when\<close> and
  \<^verbatim>\<open>unless\<close> both \<open>{A}\<close>, nothing fires while \<open>A\<close> is in the set.
\<close>

theorem guards_in_order:
  "observed_states (heap \<sigma> self)
     = insert (state (heap \<sigma> self)) (snd ` set (publishers (heap \<sigma> self))) \<and>
   run (Suc n) (Action_wrapper self f kwargs) \<sigma> =
     (if \<exists>W. a_when f = Some W \<and> W \<noteq> {} \<and> W \<inter> observed_states (heap \<sigma> self) = {}
      then Some (Done \<sigma>)
      else if \<exists>U. a_unless f = Some U \<and> U \<inter> observed_states (heap \<sigma> self) \<noteq> {}
      then Some (Done \<sigma>)
      else and_then (run n (Function_body self (a_body f)) \<sigma>)
             (run n (Process_event self (action_event self f kwargs \<sigma>)))) \<and>
   run (Suc n) (Reaction_wrapper self g event) \<sigma> =
     (if \<exists>W. r_when g = Some W \<and> W \<noteq> {} \<and> W \<inter> observed_states (heap \<sigma> self) = {}
      then Some (Done \<sigma>)
      else if \<exists>U. r_unless g = Some U \<and> U \<inter> observed_states (heap \<sigma> self) \<noteq> {}
      then Some (Done \<sigma>)
      else run n (Function_body self (r_body g)) \<sigma>) \<and>
   (a_when f = Some {A} \<and> a_unless f = Some {A} \<and> A \<in> observed_states (heap \<sigma> self)
      \<longrightarrow> run (Suc n) (Action_wrapper self f kwargs) \<sigma> = Some (Done \<sigma>)) \<and>
   (r_when g = Some {A} \<and> r_unless g = Some {A} \<and> A \<in> observed_states (heap \<sigma> self)
      \<longrightarrow> run (Suc n) (Reaction_wrapper self g event) \<sigma> = Some (Done \<sigma>))"
proof (intro conjI impI)
  show "observed_states (heap \<sigma> self)
     = insert (state (heap \<sigma> self)) (snd ` set (publishers (heap \<sigma> self)))"
    by (rule observed_states_insert)
qed (erule conjE | rule action_wrapper_guard reaction_wrapper_guard
      | erule (2) action_when_unless_same reaction_when_unless_same)+

theorem guards_in_order_witness:
  "a_when (cycle_slow\<lparr>a_when := Some {TrafficLightState GREEN},
                       a_unless := Some {TrafficLightState GREEN}\<rparr>)
     = Some {TrafficLightState GREEN} \<and>
   TrafficLightState GREEN
     \<in> observed_states
         (heap (scenario_store (TrafficLightState GREEN) (CyclistState CyclistState.STOPPED))
            cyclist) \<and>
   run (Suc 3)
     (Action_wrapper cyclist
        (cycle_slow\<lparr>a_when := Some {TrafficLightState GREEN},
                     a_unless := Some {TrafficLightState GREEN}\<rparr>) [])
     (scenario_store (TrafficLightState GREEN) (CyclistState CyclistState.STOPPED))
   = Some (Done (scenario_store (TrafficLightState GREEN) (CyclistState CyclistState.STOPPED))) \<and>
   run (Suc 3)
     (Reaction_wrapper cyclist
        ((reacting_with (TrafficLightState GREEN) ''cycle_slow'')
           \<lparr>r_when := Some {TrafficLightState GREEN},
            r_unless := Some {TrafficLightState GREEN}\<rparr>)
        \<lparr>ev_name = ''green'', ev_source = traffic_light, ev_state = TrafficLightState GREEN,
         ev_meta = Some []\<rparr>)
     (scenario_store (TrafficLightState GREEN) (CyclistState CyclistState.STOPPED))
   = Some (Done (scenario_store (TrafficLightState GREEN) (CyclistState CyclistState.STOPPED)))"
proof -
  have h: "TrafficLightState GREEN
     \<in> observed_states
         (heap (scenario_store (TrafficLightState GREEN) (CyclistState CyclistState.STOPPED))
            cyclist)"
    by code_simp
  let ?f = "cycle_slow\<lparr>a_when := Some {TrafficLightState GREEN},
                        a_unless := Some {TrafficLightState GREEN}\<rparr>"
  let ?g = "(reacting_with (TrafficLightState GREEN) ''cycle_slow'')
              \<lparr>r_when := Some {TrafficLightState GREEN},
               r_unless := Some {TrafficLightState GREEN}\<rparr>"
  let ?e = "\<lparr>ev_name = ''green'', ev_source = traffic_light, ev_state = TrafficLightState GREEN,
             ev_meta = Some []\<rparr>"
  let ?\<sigma> = "scenario_store (TrafficLightState GREEN) (CyclistState CyclistState.STOPPED)"
  note T = guards_in_order[of ?\<sigma> cyclist 3 ?f "[]" ?g ?e "TrafficLightState GREEN"]
  have "a_when ?f = Some {TrafficLightState GREEN} \<and> a_unless ?f = Some {TrafficLightState GREEN}
          \<and> TrafficLightState GREEN \<in> observed_states (heap ?\<sigma> cyclist)
        \<longrightarrow> run (Suc 3) (Action_wrapper cyclist ?f []) ?\<sigma> = Some (Done ?\<sigma>)"
    using T by (elim conjE)
  moreover
  have "r_when ?g = Some {TrafficLightState GREEN} \<and> r_unless ?g = Some {TrafficLightState GREEN}
          \<and> TrafficLightState GREEN \<in> observed_states (heap ?\<sigma> cyclist)
        \<longrightarrow> run (Suc 3) (Reaction_wrapper cyclist ?g ?e) ?\<sigma> = Some (Done ?\<sigma>)"
    using T by (elim conjE)
  ultimately show ?thesis using h by simp
qed

text \<open>
  Claim C3 as stated says that a \<^verbatim>\<open>when\<close> that is present and disjoint from the
  observed states rejects. The empty set is present and disjoint from everything, and the
  action fires: the stopped cyclist, with the light at red, starts cycling.
\<close>

theorem present_empty_when_counterexample:
  "a_when (cycle_slow\<lparr>a_when := Some {}\<rparr>) = Some {} \<and>
   {} \<inter> observed_states
          (heap (scenario_store (TrafficLightState RED) (CyclistState CyclistState.STOPPED))
             cyclist) = {} \<and>
   final_state
     (run 4 (Action_wrapper cyclist (cycle_slow\<lparr>a_when := Some {}\<rparr>) [])
        (scenario_store (TrafficLightState RED) (CyclistState CyclistState.STOPPED)))
     cyclist = Some (CyclistState CYCLING) \<and>
   final_events
     (run 4 (Action_wrapper cyclist (cycle_slow\<lparr>a_when := Some {}\<rparr>) [])
        (scenario_store (TrafficLightState RED) (CyclistState CyclistState.STOPPED)))
     cyclist
   = Some [\<lparr>ev_name = ''cycle_slow'', ev_source = cyclist, ev_state = CyclistState CYCLING,
            ev_meta = Some []\<rparr>]"
  by code_simp

text \<open>
  Claim C1 as stated constructs the light at green. There the first call,
  \<^verbatim>\<open>traffic_light.red()\<close>, raises \<^verbatim>\<open>TransitionError\<close> (the light has no transition from
  green to red) and the cyclist is still cycling.
\<close>

theorem light_at_green_counterexample:
  "drive 11 scenario_script cyclist
     (scenario_store (TrafficLightState GREEN) (CyclistState CYCLING))
     = Some (Inl TransitionError) \<and>
   final_state
     (invoke 11 traffic_light ''red'' []
        (scenario_store (TrafficLightState GREEN) (CyclistState CYCLING))) cyclist
     = Some (CyclistState CYCLING)"
  by code_simp

lemma scenario_at_11:
  "drive 11 scenario_script cyclist
     (scenario_store (TrafficLightState YELLOW) (CyclistState CYCLING))
     = Some (Inr [CyclistState CyclistState.STOPPED, CyclistState CYCLING, CyclistState CYCLING])"
  by code_simp

text \<open>
  Claim C1, amended: the light is constructed at yellow, as in Scenario B of the post. The
  machine types Light and Rider of the scenario are \<^verbatim>\<open>TrafficLight\<close> and \<^verbatim>\<open>Cyclist\<close>.
  With the cyclist constructed cycling and subscribed to the light, the calls
  \<^verbatim>\<open>red()\<close>, \<^verbatim>\<open>green()\<close>, \<^verbatim>\<open>yellow()\<close> on the light return and leave the cyclist
  stopped, cycling, cycling: no reaction is registered for yellow.
\<close>

theorem light_at_yellow_scenario:
  "11 \<le> n \<longrightarrow>
     drive n scenario_script cyclist
       (scenario_store (TrafficLightState YELLOW) (CyclistState CYCLING))
       = Some (Inr [CyclistState CyclistState.STOPPED, CyclistState CYCLING,
                    CyclistState CYCLING]) \<and>
     reactions_to_state Cyclist (TrafficLightState YELLOW) = None"
  using drive_mono[OF scenario_at_11, of n] by (simp add: Cyclist_fields reacting_with_def)

theorem light_at_yellow_scenario_witness:
  "(11::nat) \<le> 11 \<and>
   drive 11 scenario_script cyclist
     (scenario_store (TrafficLightState YELLOW) (CyclistState CYCLING))
     = Some (Inr [CyclistState CyclistState.STOPPED, CyclistState CYCLING,
                  CyclistState CYCLING])"
  using light_at_yellow_scenario[of 11] by simp

theorem one_reaction_per_state_witness:
  "2 \<le> length (reactions_for (TrafficLightState RED)
            (Cyclist_namespace @
               [(''on_red_again'', ReactionFn (reacting_with (TrafficLightState RED) ''cycle_fast''))])) \<and>
   StateMachineMeta_new ''Cyclist'' Cyclist_transitions
     (Cyclist_namespace @
        [(''on_red_again'', ReactionFn (reacting_with (TrafficLightState RED) ''cycle_fast''))])
     = Inl Exception \<and>
   StateMachineMeta_new ''Cyclist'' Cyclist_transitions Cyclist_namespace = Inr Cyclist \<and>
   length (reactions_for (TrafficLightState RED) Cyclist_namespace) \<le> 1 \<and>
   reactions_to_state Cyclist (TrafficLightState RED)
     = Some (reacting_with (TrafficLightState RED) ''stop'')"
proof -
  have h: "2 \<le> length (reactions_for (TrafficLightState RED)
            (Cyclist_namespace @
               [(''on_red_again'', ReactionFn (reacting_with (TrafficLightState RED) ''cycle_fast''))]))"
    by code_simp
  have r: "reactions_for (TrafficLightState RED) Cyclist_namespace
             = [reacting_with (TrafficLightState RED) ''stop'']"
    by (simp add: Cyclist_namespace_def reactions_for_simps reacting_with_def)
  show ?thesis
    using h r Cyclist_declared
      one_reaction_per_state
        [of "TrafficLightState RED"
            "Cyclist_namespace @
               [(''on_red_again'', ReactionFn (reacting_with (TrafficLightState RED) ''cycle_fast''))]"
            "''Cyclist''" Cyclist_transitions]
      one_reaction_per_state
        [of "TrafficLightState RED" Cyclist_namespace "''Cyclist''" Cyclist_transitions Cyclist]
    by simp
qed

theorem subscribe_then_register_witness:
  "cyclist \<noteq> traffic_light \<and>
   map_of (publishers (heap (scenario_store (TrafficLightState RED) (CyclistState CYCLING)) cyclist))
     traffic_light = Some (TrafficLightState RED) \<and>
   set (consumers (heap (scenario_store (TrafficLightState RED) (CyclistState CYCLING)) traffic_light))
     = {cyclist} \<and>
   consumers (heap (scenario_store (TrafficLightState RED) (CyclistState CYCLING)) cyclist) = [] \<and>
   register traffic_light [cyclist] (scenario_store (TrafficLightState RED) (CyclistState CYCLING))
     = scenario_store (TrafficLightState RED) (CyclistState CYCLING)"
proof -
  define \<sigma>0 where "\<sigma>0 =
     \<lparr>heap = (\<lambda>_. StateMachine_init TrafficLight (TrafficLightState RED))
                 (cyclist := StateMachine_init Cyclist (CyclistState CYCLING)),
      effects = []\<rparr>"
  define \<sigma>1 where "\<sigma>1 = subscribe cyclist [traffic_light] \<sigma>0"
  have ne: "cyclist \<noteq> traffic_light" by (simp add: cyclist_def traffic_light_def)
  have s: "scenario_store (TrafficLightState RED) (CyclistState CYCLING) = \<sigma>1"
    by (simp only: scenario_store_def \<sigma>0_def \<sigma>1_def)
  have st: "state (heap \<sigma>0 traffic_light) = TrafficLightState RED"
       "consumers (heap \<sigma>0 traffic_light) = []" "consumers (heap \<sigma>0 cyclist) = []"
    using ne by (simp_all add: \<sigma>0_def StateMachine_init_def)
  from subscribe_then_register[of cyclist traffic_light \<sigma>0 "[]"] ne
  have "map_of (publishers (heap \<sigma>1 cyclist)) traffic_light = Some (state (heap \<sigma>0 traffic_light)) \<and>
        set (consumers (heap \<sigma>1 traffic_light)) = insert cyclist (set (consumers (heap \<sigma>0 traffic_light))) \<and>
        consumers (heap \<sigma>1 cyclist) = consumers (heap \<sigma>0 cyclist)"
    unfolding \<sigma>1_def by blast
  then have abc: "map_of (publishers (heap \<sigma>1 cyclist)) traffic_light = Some (TrafficLightState RED)"
      "set (consumers (heap \<sigma>1 traffic_light)) = {cyclist}" "consumers (heap \<sigma>1 cyclist) = []"
    by (simp_all add: st)
  from subscribe_then_register[of cyclist traffic_light \<sigma>1 "[]"] ne abc(2)
  have d: "register traffic_light [cyclist] \<sigma>1 = \<sigma>1"
    by blast
  show ?thesis unfolding s using ne abc d by simp
qed

subsection \<open>What the dispatcher does\<close>

lemma heap_append_event:
  "heap (append_event self e \<sigma>) j =
     (if j = self then (heap \<sigma> self)\<lparr>events := events (heap \<sigma> self) @ [e]\<rparr> else heap \<sigma> j)"
  by (simp add: append_event_def on_instance_def)

lemma heap_set_state:
  "heap (set_state self s \<sigma>) j = (if j = self then (heap \<sigma> self)\<lparr>state := s\<rparr> else heap \<sigma> j)"
  by (simp add: set_state_def on_instance_def)

lemma heap_set_publisher:
  "heap (set_publisher self p s \<sigma>) j =
     (if j = self then (heap \<sigma> self)\<lparr>publishers := AList.update p s (publishers (heap \<sigma> self))\<rparr>
      else heap \<sigma> j)"
  by (simp add: set_publisher_def on_instance_def)

lemma effects_updates:
  "effects (append_event self e \<sigma>) = effects \<sigma>"
  "effects (set_state self s \<sigma>) = effects \<sigma>"
  "effects (set_publisher self p s \<sigma>) = effects \<sigma>"
  by (simp_all add: append_event_def set_state_def set_publisher_def on_instance_def)

lemma process_event_internal:
  "ev_source e = self \<Longrightarrow>
     run (Suc n) (Process_event self e) \<sigma> = run n (Process_internal_event self e) (append_event self e \<sigma>)"
  by (simp add: process_event_def)

lemma process_event_external:
  "ev_source e \<noteq> self \<Longrightarrow>
     run (Suc n) (Process_event self e) \<sigma> = run n (Process_external_event self e) (append_event self e \<sigma>)"
  by (simp add: process_event_def)

lemma internal_same_state:
  "ev_state e = state (heap \<sigma> self) \<Longrightarrow>
     run (Suc n) (Process_internal_event self e) \<sigma> = Some (Done \<sigma>)"
  by (simp add: process_internal_event_def)

lemma internal_illegal:
  "ev_state e \<noteq> state (heap \<sigma> self) \<Longrightarrow>
   ev_state e \<notin> set (get_list (transitions_map (heap \<sigma> self)) (state (heap \<sigma> self))) \<Longrightarrow>
     run (Suc n) (Process_internal_event self e) \<sigma> = Some (Raised TransitionError \<sigma>)"
  by (simp add: process_internal_event_def)

lemma internal_legal_quiet:
  "ev_state e \<noteq> state (heap \<sigma> self) \<Longrightarrow>
   ev_state e \<in> set (get_list (transitions_map (heap \<sigma> self)) (state (heap \<sigma> self))) \<Longrightarrow>
   ev_name e \<notin> set (broadcast_events (klass (heap \<sigma> self))) \<Longrightarrow>
     run (Suc n) (Process_internal_event self e) \<sigma> = Some (Done (set_state self (ev_state e) \<sigma>))"
  by (simp add: process_internal_event_def Let_def heap_set_state)

lemma internal_legal_broadcast:
  "ev_state e \<noteq> state (heap \<sigma> self) \<Longrightarrow>
   ev_state e \<in> set (get_list (transitions_map (heap \<sigma> self)) (state (heap \<sigma> self))) \<Longrightarrow>
   ev_name e \<in> set (broadcast_events (klass (heap \<sigma> self))) \<Longrightarrow>
     run (Suc n) (Process_internal_event self e) \<sigma>
       = run n (Publish_event (consumers (heap \<sigma> self))
                 \<lparr>ev_name = ev_name e, ev_source = self, ev_state = ev_state e, ev_meta = ev_meta e\<rparr>)
           (set_state self (ev_state e) \<sigma>)"
  by (simp add: process_internal_event_def Let_def heap_set_state)

lemma action_wrapper_passes:
  "\<not> when_rejects (a_when f) (observed_states (heap \<sigma> self)) \<Longrightarrow>
   \<not> unless_rejects (a_unless f) (observed_states (heap \<sigma> self)) \<Longrightarrow>
   run n (Function_body self (a_body f)) \<sigma> = Some (Done \<sigma>1) \<Longrightarrow>
     run (Suc n) (Action_wrapper self f kwargs) \<sigma>
       = run n (Process_event self (action_event self f kwargs \<sigma>)) \<sigma>1"
  by (simp add: action_wrapper_def Let_def and_then_def action_event_def)

lemma action_event_sel:
  "ev_name (action_event self f kwargs \<sigma>) = fn_name f"
  "ev_source (action_event self f kwargs \<sigma>) = self"
  "ev_state (action_event self f kwargs \<sigma>) = transitions_to f"
  by (simp_all add: action_event_def)

lemma relay_is_action_event:
  "\<lparr>ev_name = fn_name f, ev_source = self, ev_state = transitions_to f,
    ev_meta = ev_meta (action_event self f kwargs \<sigma>)\<rparr> = action_event self f kwargs \<sigma>"
  by (simp add: action_event_def)

text \<open>
  Claim C6, amended. An internal event whose state is the current state is appended to the
  log and nothing else happens: the state is unchanged and no other instance is touched, so
  nothing is delivered to any consumer. An action whose guards pass and whose body returns
  with the instance at the action's target state does exactly that, whether or not it is
  flagged broadcast.
\<close>

theorem same_state_action_is_noop:
  "(ev_source e = self \<and> ev_state e = state (heap \<sigma> self) \<longrightarrow>
      run (Suc (Suc n)) (Process_event self e) \<sigma> = Some (Done (append_event self e \<sigma>))) \<and>
   (\<not> when_rejects (a_when f) (observed_states (heap \<sigma> self)) \<and>
    \<not> unless_rejects (a_unless f) (observed_states (heap \<sigma> self)) \<and>
    run (Suc (Suc n)) (Function_body self (a_body f)) \<sigma> = Some (Done \<sigma>1) \<and>
    transitions_to f = state (heap \<sigma>1 self) \<longrightarrow>
      run (Suc (Suc (Suc n))) (Action_wrapper self f kwargs) \<sigma>
        = Some (Done (append_event self (action_event self f kwargs \<sigma>) \<sigma>1))) \<and>
   state (heap (append_event self e \<sigma>) j) = state (heap \<sigma> j) \<and>
   events (heap (append_event self e \<sigma>) self) = events (heap \<sigma> self) @ [e] \<and>
   (j \<noteq> self \<longrightarrow> heap (append_event self e \<sigma>) j = heap \<sigma> j) \<and>
   effects (append_event self e \<sigma>) = effects \<sigma>"
proof (intro conjI impI)
  assume "ev_source e = self \<and> ev_state e = state (heap \<sigma> self)"
  then show "run (Suc (Suc n)) (Process_event self e) \<sigma> = Some (Done (append_event self e \<sigma>))"
    by (simp add: process_event_internal internal_same_state heap_append_event del: run.simps)
next
  assume a: "\<not> when_rejects (a_when f) (observed_states (heap \<sigma> self)) \<and>
    \<not> unless_rejects (a_unless f) (observed_states (heap \<sigma> self)) \<and>
    run (Suc (Suc n)) (Function_body self (a_body f)) \<sigma> = Some (Done \<sigma>1) \<and>
    transitions_to f = state (heap \<sigma>1 self)"
  then have "run (Suc (Suc (Suc n))) (Action_wrapper self f kwargs) \<sigma>
       = run (Suc (Suc n)) (Process_event self (action_event self f kwargs \<sigma>)) \<sigma>1"
    by (intro action_wrapper_passes) simp_all
  also have "\<dots> = Some (Done (append_event self (action_event self f kwargs \<sigma>) \<sigma>1))"
    using a
    by (simp add: process_event_internal internal_same_state heap_append_event action_event_sel
          del: run.simps)
  finally show "run (Suc (Suc (Suc n))) (Action_wrapper self f kwargs) \<sigma>
        = Some (Done (append_event self (action_event self f kwargs \<sigma>) \<sigma>1))" .
qed (simp_all add: heap_append_event effects_updates)

text \<open>
  Claim C6 as stated covers every action whose target is the current state. When the guard
  rejects, no event is appended: the cyclist is cycling, the light is red, and
  \<^verbatim>\<open>cycle_slow()\<close> returns with the log still empty.
\<close>

theorem rejected_same_state_counterexample:
  "transitions_to cycle_slow
     = state (heap (scenario_store (TrafficLightState RED) (CyclistState CYCLING)) cyclist) \<and>
   final_exception
     (invoke 11 cyclist ''cycle_slow'' []
        (scenario_store (TrafficLightState RED) (CyclistState CYCLING))) = Some None \<and>
   final_events
     (invoke 11 cyclist ''cycle_slow'' []
        (scenario_store (TrafficLightState RED) (CyclistState CYCLING))) cyclist = Some []"
  by code_simp

lemma action_wrapper_to_internal:
  assumes "\<not> when_rejects (a_when f) (observed_states (heap \<sigma> self))"
      and "\<not> unless_rejects (a_unless f) (observed_states (heap \<sigma> self))"
      and "run (Suc (Suc n)) (Function_body self (a_body f)) \<sigma> = Some (Done \<sigma>1)"
  shows "run (Suc (Suc (Suc n))) (Action_wrapper self f kwargs) \<sigma>
           = run (Suc n) (Process_internal_event self (action_event self f kwargs \<sigma>))
               (append_event self (action_event self f kwargs \<sigma>) \<sigma>1)"
proof -
  have "run (Suc (Suc (Suc n))) (Action_wrapper self f kwargs) \<sigma>
          = run (Suc (Suc n)) (Process_event self (action_event self f kwargs \<sigma>)) \<sigma>1"
    using assms by (rule action_wrapper_passes)
  then show ?thesis
    by (simp only: process_event_internal action_event_sel)
qed

lemma action_wrapper_illegal:
  assumes "\<not> when_rejects (a_when f) (observed_states (heap \<sigma> self))"
      and "\<not> unless_rejects (a_unless f) (observed_states (heap \<sigma> self))"
      and "run (Suc (Suc n)) (Function_body self (a_body f)) \<sigma> = Some (Done \<sigma>1)"
      and "transitions_to f \<noteq> state (heap \<sigma>1 self)"
      and "transitions_to f \<notin> set (get_list (transitions_map (heap \<sigma>1 self)) (state (heap \<sigma>1 self)))"
  shows "run (Suc (Suc (Suc n))) (Action_wrapper self f kwargs) \<sigma>
           = Some (Raised TransitionError (append_event self (action_event self f kwargs \<sigma>) \<sigma>1))"
  unfolding action_wrapper_to_internal[OF assms(1-3)]
  using assms(4,5) by (intro internal_illegal) (simp_all add: heap_append_event action_event_sel)

lemma action_wrapper_legal_quiet:
  assumes "\<not> when_rejects (a_when f) (observed_states (heap \<sigma> self))"
      and "\<not> unless_rejects (a_unless f) (observed_states (heap \<sigma> self))"
      and "run (Suc (Suc n)) (Function_body self (a_body f)) \<sigma> = Some (Done \<sigma>1)"
      and "transitions_to f \<noteq> state (heap \<sigma>1 self)"
      and "transitions_to f \<in> set (get_list (transitions_map (heap \<sigma>1 self)) (state (heap \<sigma>1 self)))"
      and "fn_name f \<notin> set (broadcast_events (klass (heap \<sigma>1 self)))"
  shows "run (Suc (Suc (Suc n))) (Action_wrapper self f kwargs) \<sigma>
           = Some (Done (set_state self (transitions_to f)
                           (append_event self (action_event self f kwargs \<sigma>) \<sigma>1)))"
proof -
  let ?ev = "action_event self f kwargs \<sigma>"
  have "run (Suc n) (Process_internal_event self ?ev) (append_event self ?ev \<sigma>1)
          = Some (Done (set_state self (ev_state ?ev) (append_event self ?ev \<sigma>1)))"
    using assms(4-6) by (intro internal_legal_quiet) (simp_all add: heap_append_event action_event_sel)
  then show ?thesis
    unfolding action_wrapper_to_internal[OF assms(1-3)] by (simp only: action_event_sel)
qed

lemma action_wrapper_legal_broadcast:
  assumes "\<not> when_rejects (a_when f) (observed_states (heap \<sigma> self))"
      and "\<not> unless_rejects (a_unless f) (observed_states (heap \<sigma> self))"
      and "run (Suc (Suc n)) (Function_body self (a_body f)) \<sigma> = Some (Done \<sigma>1)"
      and "transitions_to f \<noteq> state (heap \<sigma>1 self)"
      and "transitions_to f \<in> set (get_list (transitions_map (heap \<sigma>1 self)) (state (heap \<sigma>1 self)))"
      and "fn_name f \<in> set (broadcast_events (klass (heap \<sigma>1 self)))"
  shows "run (Suc (Suc (Suc n))) (Action_wrapper self f kwargs) \<sigma>
           = run n (Publish_event (consumers (heap \<sigma>1 self)) (action_event self f kwargs \<sigma>))
               (set_state self (transitions_to f)
                  (append_event self (action_event self f kwargs \<sigma>) \<sigma>1))"
proof -
  let ?ev = "action_event self f kwargs \<sigma>"
  have "run (Suc n) (Process_internal_event self ?ev) (append_event self ?ev \<sigma>1)
          = run n (Publish_event (consumers (heap (append_event self ?ev \<sigma>1) self))
                 \<lparr>ev_name = ev_name ?ev, ev_source = self, ev_state = ev_state ?ev,
                  ev_meta = ev_meta ?ev\<rparr>)
              (set_state self (ev_state ?ev) (append_event self ?ev \<sigma>1))"
    using assms(4-6)
    by (intro internal_legal_broadcast) (simp_all add: heap_append_event action_event_sel)
  then show ?thesis
    unfolding action_wrapper_to_internal[OF assms(1-3)]
    by (simp add: action_event_sel relay_is_action_event heap_append_event del: run.simps)
qed

lemma function_body_empty: "run (Suc n) (Function_body self []) \<sigma> = Some (Done \<sigma>)"
  by (simp add: function_body_def)

lemma function_body_effects:
  "run (Suc (length ls + k)) (Function_body self (map Effect ls)) \<sigma>
     = Some (Done (\<sigma>\<lparr>effects := effects \<sigma> @ map (Pair self) ls\<rparr>))"
proof (induction ls arbitrary: \<sigma>)
  case Nil
  show ?case by (simp add: function_body_def)
next
  case (Cons l ls)
  have "run (Suc (length (l # ls) + k)) (Function_body self (map Effect (l # ls))) \<sigma>
          = run (Suc (length ls + k)) (Function_body self (map Effect ls))
              (\<sigma>\<lparr>effects := effects \<sigma> @ [(self, l)]\<rparr>)"
    by (simp add: function_body_def)
  then show ?case by (simp add: Cons.IH del: run.simps)
qed

lemma action_wrapper_rejects:
  "when_rejects (a_when f) (observed_states (heap \<sigma> self)) \<or>
   unless_rejects (a_unless f) (observed_states (heap \<sigma> self)) \<Longrightarrow>
     run (Suc n) (Action_wrapper self f kwargs) \<sigma> = Some (Done \<sigma>)"
  by (auto simp: action_wrapper_def Let_def)

text \<open>
  Claim C4. When a guard rejects, the call returns with the store as it was: the body has not
  run. When the guards pass, the body runs once, and only then is the transition checked: if
  the target is not the state the body left the instance in and is not adjacent to it, the
  call raises \<^verbatim>\<open>TransitionError\<close> in the store the body produced (with the event
  logged), so the effects of the body stay. For a body that consists of effects, each effect
  is in the effect log exactly once after the error.
\<close>

theorem body_runs_before_transition_check:
  "(when_rejects (a_when f) (observed_states (heap \<sigma> self)) \<or>
    unless_rejects (a_unless f) (observed_states (heap \<sigma> self)) \<longrightarrow>
      run (Suc n) (Action_wrapper self f kwargs) \<sigma> = Some (Done \<sigma>)) \<and>
   (\<not> when_rejects (a_when f) (observed_states (heap \<sigma> self)) \<and>
    \<not> unless_rejects (a_unless f) (observed_states (heap \<sigma> self)) \<and>
    run (Suc (Suc n)) (Function_body self (a_body f)) \<sigma> = Some (Done \<sigma>1) \<and>
    transitions_to f \<noteq> state (heap \<sigma>1 self) \<and>
    transitions_to f \<notin> set (get_list (transitions_map (heap \<sigma>1 self)) (state (heap \<sigma>1 self))) \<longrightarrow>
      run (Suc (Suc (Suc n))) (Action_wrapper self f kwargs) \<sigma>
        = Some (Raised TransitionError (append_event self (action_event self f kwargs \<sigma>) \<sigma>1)) \<and>
      effects (append_event self (action_event self f kwargs \<sigma>) \<sigma>1) = effects \<sigma>1) \<and>
   (\<not> when_rejects (a_when f) (observed_states (heap \<sigma> self)) \<and>
    \<not> unless_rejects (a_unless f) (observed_states (heap \<sigma> self)) \<and>
    a_body f = map Effect ls \<and>
    transitions_to f \<noteq> state (heap \<sigma> self) \<and>
    transitions_to f \<notin> set (get_list (transitions_map (heap \<sigma> self)) (state (heap \<sigma> self))) \<longrightarrow>
      run (Suc (Suc (Suc (length ls + k)))) (Action_wrapper self f kwargs) \<sigma>
        = Some (Raised TransitionError
                  (append_event self (action_event self f kwargs \<sigma>)
                     (\<sigma>\<lparr>effects := effects \<sigma> @ map (Pair self) ls\<rparr>))))"
proof (intro conjI impI)
  assume "when_rejects (a_when f) (observed_states (heap \<sigma> self)) \<or>
    unless_rejects (a_unless f) (observed_states (heap \<sigma> self))"
  then show "run (Suc n) (Action_wrapper self f kwargs) \<sigma> = Some (Done \<sigma>)"
    by (rule action_wrapper_rejects)
next
  assume "\<not> when_rejects (a_when f) (observed_states (heap \<sigma> self)) \<and>
    \<not> unless_rejects (a_unless f) (observed_states (heap \<sigma> self)) \<and>
    run (Suc (Suc n)) (Function_body self (a_body f)) \<sigma> = Some (Done \<sigma>1) \<and>
    transitions_to f \<noteq> state (heap \<sigma>1 self) \<and>
    transitions_to f \<notin> set (get_list (transitions_map (heap \<sigma>1 self)) (state (heap \<sigma>1 self)))"
  then show "run (Suc (Suc (Suc n))) (Action_wrapper self f kwargs) \<sigma>
        = Some (Raised TransitionError (append_event self (action_event self f kwargs \<sigma>) \<sigma>1))"
    by (intro action_wrapper_illegal) simp_all
next
  let ?\<sigma>1 = "\<sigma>\<lparr>effects := effects \<sigma> @ map (Pair self) ls\<rparr>"
  assume a: "\<not> when_rejects (a_when f) (observed_states (heap \<sigma> self)) \<and>
    \<not> unless_rejects (a_unless f) (observed_states (heap \<sigma> self)) \<and>
    a_body f = map Effect ls \<and>
    transitions_to f \<noteq> state (heap \<sigma> self) \<and>
    transitions_to f \<notin> set (get_list (transitions_map (heap \<sigma> self)) (state (heap \<sigma> self)))"
  have "run (Suc (length ls + Suc k)) (Function_body self (map Effect ls)) \<sigma> = Some (Done ?\<sigma>1)"
    by (rule function_body_effects)
  then have body: "run (Suc (Suc (length ls + k))) (Function_body self (a_body f)) \<sigma> = Some (Done ?\<sigma>1)"
    using a by (simp del: run.simps)
  have h: "heap ?\<sigma>1 = heap \<sigma>" by simp
  show "run (Suc (Suc (Suc (length ls + k)))) (Action_wrapper self f kwargs) \<sigma>
        = Some (Raised TransitionError (append_event self (action_event self f kwargs \<sigma>) ?\<sigma>1))"
    using a body by (intro action_wrapper_illegal) (simp_all only: h simp_thms)
qed (simp add: effects_updates)

lemma external_event_unfold:
  "run (Suc (Suc n)) (Process_external_event self e) \<sigma> =
     (case reactions_to_state (klass (heap \<sigma> self)) (ev_state e) of
        None \<Rightarrow> Some (Done (set_publisher self (ev_source e) (ev_state e) \<sigma>))
      | Some g \<Rightarrow>
          if when_rejects (r_when g)
               (observed_states (heap (set_publisher self (ev_source e) (ev_state e) \<sigma>) self)) \<or>
             unless_rejects (r_unless g)
               (observed_states (heap (set_publisher self (ev_source e) (ev_state e) \<sigma>) self))
          then Some (Done (set_publisher self (ev_source e) (ev_state e) \<sigma>))
          else run n (Function_body self (r_body g))
                 (set_publisher self (ev_source e) (ev_state e) \<sigma>))"
  by (simp add: process_external_event_def reaction_wrapper_def Let_def heap_set_publisher
        split: option.splits)

lemma map_of_update_same: "map_of (AList.update k v al) k = Some v"
  by (simp add: update_conv')

lemma snd_in_update: "v \<in> snd ` set (AList.update k v al)"
proof -
  have "map_of (AList.update k v al) k = Some v" by (rule map_of_update_same)
  then have "(k, v) \<in> set (AList.update k v al)" by (rule map_of_SomeD)
  then show ?thesis by force
qed

text \<open>
  Claim C7. An event from another instance is logged and handed to
  \<^verbatim>\<open>_process_external_event\<close>, which first stores the event's state under
  \<^verbatim>\<open>publishers[event.source]\<close>, whatever follows. With no reaction registered for that
  state the call returns there, without an error. With a reaction registered, its guards are
  evaluated on the observed states after the update (they contain the event's state), and the
  body of the reaction runs only if neither guard rejects.
\<close>

theorem external_event_handling:
  "ev_source e \<noteq> self \<longrightarrow>
     run (Suc (Suc (Suc n))) (Process_event self e) \<sigma>
       = run (Suc (Suc n)) (Process_external_event self e) (append_event self e \<sigma>) \<and>
     run (Suc (Suc n)) (Process_external_event self e) \<sigma> =
       (case reactions_to_state (klass (heap \<sigma> self)) (ev_state e) of
          None \<Rightarrow> Some (Done (set_publisher self (ev_source e) (ev_state e) \<sigma>))
        | Some g \<Rightarrow>
            if when_rejects (r_when g)
                 (observed_states (heap (set_publisher self (ev_source e) (ev_state e) \<sigma>) self)) \<or>
               unless_rejects (r_unless g)
                 (observed_states (heap (set_publisher self (ev_source e) (ev_state e) \<sigma>) self))
            then Some (Done (set_publisher self (ev_source e) (ev_state e) \<sigma>))
            else run n (Function_body self (r_body g))
                   (set_publisher self (ev_source e) (ev_state e) \<sigma>)) \<and>
     map_of (publishers (heap (set_publisher self (ev_source e) (ev_state e) \<sigma>) self)) (ev_source e)
       = Some (ev_state e) \<and>
     ev_state e \<in> observed_states (heap (set_publisher self (ev_source e) (ev_state e) \<sigma>) self) \<and>
     (\<forall>j. j \<noteq> self \<longrightarrow> heap (set_publisher self (ev_source e) (ev_state e) \<sigma>) j = heap \<sigma> j) \<and>
     state (heap (set_publisher self (ev_source e) (ev_state e) \<sigma>) self) = state (heap \<sigma> self)"
proof (intro impI conjI)
  assume "ev_source e \<noteq> self"
  then show "run (Suc (Suc (Suc n))) (Process_event self e) \<sigma>
       = run (Suc (Suc n)) (Process_external_event self e) (append_event self e \<sigma>)"
    by (rule process_event_external)
next
  show "ev_state e \<in> observed_states (heap (set_publisher self (ev_source e) (ev_state e) \<sigma>) self)"
    by (simp add: observed_states_insert heap_set_publisher snd_in_update)
qed (simp_all add: external_event_unfold heap_set_publisher map_of_update_same del: run.simps)

lemma downstream_refl: "X \<subseteq> downstream \<sigma> X"
  by (auto simp: downstream_def)

lemma downstream_closed: "X \<subseteq> downstream \<sigma> Y \<Longrightarrow> downstream \<sigma> X \<subseteq> downstream \<sigma> Y"
  unfolding downstream_def by (auto intro: rtrancl_trans)

lemma downstream_consumers: "set (consumers (heap \<sigma> self)) \<subseteq> downstream \<sigma> {self}"
  by (auto simp: downstream_def consumer_edges_def)

lemma downstream_wiring: "same_wiring \<sigma> \<sigma>' \<Longrightarrow> downstream \<sigma>' X = downstream \<sigma> X"
  by (simp add: downstream_def consumer_edges_def same_wiring_def)

lemma same_wiring_refl: "same_wiring \<sigma> \<sigma>"
  by (simp add: same_wiring_def)

lemma same_wiring_trans: "same_wiring \<sigma> \<sigma>1 \<Longrightarrow> same_wiring \<sigma>1 \<sigma>2 \<Longrightarrow> same_wiring \<sigma> \<sigma>2"
  by (simp add: same_wiring_def)

lemma sound_chain:
  assumes w: "same_wiring \<sigma> \<sigma>1"
      and fr: "\<And>j. j \<notin> downstream \<sigma> (targets c) \<Longrightarrow> heap \<sigma>1 j = heap \<sigma> j"
      and snd: "sound_outcome c' \<sigma>1 r"
      and sub: "targets c' \<subseteq> downstream \<sigma> (targets c)"
      and del: "\<And>s j. s \<notin> downstream \<sigma> (targets c) \<Longrightarrow>
                  from_source s (heap \<sigma>1 j) @ delivered s c' j
                    = from_source s (heap \<sigma> j) @ delivered s c j"
  shows "sound_outcome c \<sigma> r"
proof -
  have incl: "downstream \<sigma>1 (targets c') \<subseteq> downstream \<sigma> (targets c)"
    using downstream_closed[OF sub] by (simp add: downstream_wiring[OF w])
  from snd have w': "same_wiring \<sigma>1 (store_of r)"
    and fr': "\<And>j. j \<notin> downstream \<sigma>1 (targets c') \<Longrightarrow> heap (store_of r) j = heap \<sigma>1 j"
    and del': "\<And>s \<sigma>' j. s \<notin> downstream \<sigma>1 (targets c') \<Longrightarrow> r = Done \<sigma>' \<Longrightarrow>
                 from_source s (heap \<sigma>' j) = from_source s (heap \<sigma>1 j) @ delivered s c' j"
    by (simp_all add: sound_outcome_def)
  show ?thesis
    unfolding sound_outcome_def
  proof (intro conjI allI impI)
    show "same_wiring \<sigma> (store_of r)" using w w' by (rule same_wiring_trans)
  next
    fix j assume a: "j \<notin> downstream \<sigma> (targets c)"
    then have "j \<notin> downstream \<sigma>1 (targets c')" using incl by blast
    then have "heap (store_of r) j = heap \<sigma>1 j" by (rule fr')
    also have "\<dots> = heap \<sigma> j" using a by (rule fr)
    finally show "heap (store_of r) j = heap \<sigma> j" .
  next
    fix s \<sigma>' j assume a: "s \<notin> downstream \<sigma> (targets c)" and r: "r = Done \<sigma>'"
    from a have "s \<notin> downstream \<sigma>1 (targets c')" using incl by blast
    then have "from_source s (heap \<sigma>' j) = from_source s (heap \<sigma>1 j) @ delivered s c' j"
      using r by (rule del')
    also have "\<dots> = from_source s (heap \<sigma> j) @ delivered s c j" using a by (rule del)
    finally show "from_source s (heap \<sigma>' j) = from_source s (heap \<sigma> j) @ delivered s c j" .
  qed
qed

lemma sound_raised_weaken:
  assumes "sound_outcome c' \<sigma> (Raised e \<sigma>')" and "targets c' \<subseteq> downstream \<sigma> (targets c)"
  shows "sound_outcome c \<sigma> (Raised e \<sigma>')"
  using assms downstream_closed[OF assms(2)] by (auto simp: sound_outcome_def)

lemma sound_and_then:
  assumes resp: "well_behaved call"
      and run: "and_then (call a \<sigma>) (call b) = Some r"
      and ta: "targets a \<subseteq> downstream \<sigma> (targets c)"
      and tb: "targets b \<subseteq> downstream \<sigma> (targets c)"
      and del: "\<And>s j. s \<notin> downstream \<sigma> (targets c) \<Longrightarrow>
                  delivered s c j = delivered s a j @ delivered s b j"
  shows "sound_outcome c \<sigma> r"
proof (cases "call a \<sigma>")
  case None
  with run show ?thesis by (simp add: and_then_def)
next
  case (Some r1)
  with resp have s1: "sound_outcome a \<sigma> r1" by (simp add: well_behaved_def)
  show ?thesis
  proof (cases r1)
    case (Raised e \<sigma>1)
    with Some run have "r = Raised e \<sigma>1" by (simp add: and_then_def)
    with s1 Raised ta show ?thesis by (auto intro: sound_raised_weaken)
  next
    case (Done \<sigma>1)
    with Some run have "call b \<sigma>1 = Some r" by (simp add: and_then_def)
    with resp have s2: "sound_outcome b \<sigma>1 r" by (simp add: well_behaved_def)
    from s1 Done have w: "same_wiring \<sigma> \<sigma>1"
      and fr: "\<And>j. j \<notin> downstream \<sigma> (targets a) \<Longrightarrow> heap \<sigma>1 j = heap \<sigma> j"
      and d1: "\<And>s j. s \<notin> downstream \<sigma> (targets a) \<Longrightarrow>
                 from_source s (heap \<sigma>1 j) = from_source s (heap \<sigma> j) @ delivered s a j"
      by (simp_all add: sound_outcome_def store_of_def)
    note ia = downstream_closed[OF ta]
    show ?thesis
    proof (rule sound_chain[OF w _ s2 tb])
      fix j assume "j \<notin> downstream \<sigma> (targets c)"
      then have "j \<notin> downstream \<sigma> (targets a)" using ia by blast
      then show "heap \<sigma>1 j = heap \<sigma> j" by (rule fr)
    next
      fix s j assume n: "s \<notin> downstream \<sigma> (targets c)"
      then have "s \<notin> downstream \<sigma> (targets a)" using ia by blast
      then show "from_source s (heap \<sigma>1 j) @ delivered s b j
                   = from_source s (heap \<sigma> j) @ delivered s c j"
        by (simp add: d1 del[OF n])
    qed
  qed
qed

lemma sound_here:
  assumes "same_wiring \<sigma> \<sigma>1"
      and "\<And>j. j \<notin> downstream \<sigma> (targets c) \<Longrightarrow> heap \<sigma>1 j = heap \<sigma> j"
      and "\<And>s j. s \<notin> downstream \<sigma> (targets c) \<Longrightarrow>
             from_source s (heap \<sigma>1 j) = from_source s (heap \<sigma> j) @ delivered s c j"
  shows "sound_outcome c \<sigma> (Done \<sigma>1)"
  using assms by (simp add: sound_outcome_def store_of_def)

lemma sound_raised_here:
  assumes "same_wiring \<sigma> \<sigma>1"
      and "\<And>j. j \<notin> downstream \<sigma> (targets c) \<Longrightarrow> heap \<sigma>1 j = heap \<sigma> j"
  shows "sound_outcome c \<sigma> (Raised e \<sigma>1)"
  using assms by (simp add: sound_outcome_def store_of_def)

lemma sound_same_targets:
  assumes "sound_outcome c' \<sigma> r" and "targets c' = targets c"
      and "\<And>s j. delivered s c' j = delivered s c j"
  shows "sound_outcome c \<sigma> r"
  using assms by (simp add: sound_outcome_def)

lemma self_downstream: "self \<in> downstream \<sigma> {self}"
  using downstream_refl[of "{self}" \<sigma>] by simp

lemma not_downstream_ne: "j \<notin> downstream \<sigma> {self} \<Longrightarrow> j \<noteq> self"
  using self_downstream[of self \<sigma>] by auto

lemma wiring_updates:
  "same_wiring \<sigma> (append_event self e \<sigma>)"
  "same_wiring \<sigma> (set_state self s \<sigma>)"
  "same_wiring \<sigma> (set_publisher self p s \<sigma>)"
  "same_wiring \<sigma> (\<sigma>\<lparr>effects := x\<rparr>)"
  by (simp_all add: same_wiring_def heap_append_event heap_set_state heap_set_publisher)

lemma from_source_updates:
  "from_source s (heap (set_state self t \<sigma>) j) = from_source s (heap \<sigma> j)"
  "from_source s (heap (set_publisher self p t \<sigma>) j) = from_source s (heap \<sigma> j)"
  "from_source s (heap (append_event self e \<sigma>) j)
     = from_source s (heap \<sigma> j) @ (if ev_source e = s \<and> j = self then [e] else [])"
  by (simp_all add: from_source_def heap_append_event heap_set_state heap_set_publisher)

lemma well_behavedD: "well_behaved call \<Longrightarrow> call c \<sigma> = Some r \<Longrightarrow> sound_outcome c \<sigma> r"
  by (simp add: well_behaved_def)

lemma sound_trivial:
  "(\<And>s j. delivered s c j = []) \<Longrightarrow> sound_outcome c \<sigma> (Done \<sigma>)"
  by (simp add: sound_outcome_def store_of_def same_wiring_def)

lemma action_wrapper_sound:
  assumes wb: "well_behaved call" and run: "action_wrapper call self f kwargs \<sigma> = Some r"
  shows "sound_outcome (Action_wrapper self f kwargs) \<sigma> r"
proof (cases "when_rejects (a_when f) (observed_states (heap \<sigma> self)) \<or>
              unless_rejects (a_unless f) (observed_states (heap \<sigma> self))")
  case True
  with run have "r = Done \<sigma>" by (auto simp: action_wrapper_def Let_def split: if_splits)
  then show ?thesis by (simp add: sound_trivial)
next
  case False
  with run have "and_then (call (Function_body self (a_body f)) \<sigma>)
                   (call (Process_event self (action_event self f kwargs \<sigma>))) = Some r"
    by (simp add: action_wrapper_def Let_def action_event_def)
  then show ?thesis
  proof (rule sound_and_then[OF wb])
    fix s j assume "s \<notin> downstream \<sigma> (targets (Action_wrapper self f kwargs))"
    then have "s \<noteq> self" by (simp add: not_downstream_ne)
    then show "delivered s (Action_wrapper self f kwargs) j
                 = delivered s (Function_body self (a_body f)) j
                   @ delivered s (Process_event self (action_event self f kwargs \<sigma>)) j"
      by (simp add: action_event_sel)
  qed (simp_all add: downstream_refl)
qed

lemma function_body_sound:
  assumes wb: "well_behaved call" and run: "function_body call self body \<sigma> = Some r"
  shows "sound_outcome (Function_body self body) \<sigma> r"
proof (cases body)
  case Nil
  with run have "r = Done \<sigma>" by (auto simp: function_body_def)
  then show ?thesis by (simp add: Nil sound_trivial)
next
  case (Cons st rest)
  show ?thesis
  proof (cases st)
    case (Effect l)
    let ?\<sigma>1 = "\<sigma>\<lparr>effects := effects \<sigma> @ [(self, l)]\<rparr>"
    from run Cons Effect have "call (Function_body self rest) ?\<sigma>1 = Some r"
      by (simp add: function_body_def)
    then have "sound_outcome (Function_body self rest) ?\<sigma>1 r" by (rule well_behavedD[OF wb])
    then show ?thesis
      by (rule sound_chain[rotated 2]) (simp_all add: wiring_updates downstream_refl)
  next
    case (Call g)
    show ?thesis
    proof (cases "lookup_action (klass (heap \<sigma> self)) g")
      case (Inl e)
      with run Cons Call have "r = Raised e \<sigma>" by (simp add: function_body_def)
      then show ?thesis by (simp add: sound_raised_here same_wiring_refl)
    next
      case (Inr a)
      with run Cons Call have "and_then (call (Action_wrapper self a []) \<sigma>)
                                 (call (Function_body self rest)) = Some r"
        by (simp add: function_body_def)
      then show ?thesis
        by (rule sound_and_then[OF wb]) (simp_all add: downstream_refl)
    qed
  qed
qed

lemma process_event_sound:
  assumes wb: "well_behaved call" and run: "process_event call self event \<sigma> = Some r"
  shows "sound_outcome (Process_event self event) \<sigma> r"
proof -
  let ?\<sigma>1 = "append_event self event \<sigma>"
  let ?c = "if ev_source event = self then Process_internal_event self event
            else Process_external_event self event"
  from run have "call ?c ?\<sigma>1 = Some r"
    by (simp add: process_event_def Let_def split: if_splits)
  then have "sound_outcome ?c ?\<sigma>1 r" by (rule well_behavedD[OF wb])
  then show ?thesis
  proof (rule sound_chain[rotated 2])
    fix j assume "j \<notin> downstream \<sigma> (targets (Process_event self event))"
    then have "j \<noteq> self" by (simp add: not_downstream_ne)
    then show "heap ?\<sigma>1 j = heap \<sigma> j" by (simp add: heap_append_event)
  qed (simp_all add: wiring_updates downstream_refl from_source_updates)
qed

lemma process_internal_event_sound:
  assumes wb: "well_behaved call" and run: "process_internal_event call self event \<sigma> = Some r"
  shows "sound_outcome (Process_internal_event self event) \<sigma> r"
proof -
  let ?\<sigma>1 = "set_state self (ev_state event) \<sigma>"
  let ?relay = "\<lparr>ev_name = ev_name event, ev_source = self, ev_state = state (heap ?\<sigma>1 self),
                 ev_meta = ev_meta event\<rparr>"
  have frame: "\<And>j. j \<notin> downstream \<sigma> (targets (Process_internal_event self event))
                 \<Longrightarrow> heap ?\<sigma>1 j = heap \<sigma> j"
    by (simp add: heap_set_state not_downstream_ne)
  consider (same) "state (heap \<sigma> self) = ev_state event"
    | (illegal) "state (heap \<sigma> self) \<noteq> ev_state event"
        "ev_state event \<notin> set (get_list (transitions_map (heap \<sigma> self)) (state (heap \<sigma> self)))"
    | (quiet) "state (heap \<sigma> self) \<noteq> ev_state event"
        "ev_state event \<in> set (get_list (transitions_map (heap \<sigma> self)) (state (heap \<sigma> self)))"
        "ev_name event \<notin> set (broadcast_events (klass (heap ?\<sigma>1 self)))"
    | (publish) "state (heap \<sigma> self) \<noteq> ev_state event"
        "ev_state event \<in> set (get_list (transitions_map (heap \<sigma> self)) (state (heap \<sigma> self)))"
        "ev_name event \<in> set (broadcast_events (klass (heap ?\<sigma>1 self)))"
    by blast
  then show ?thesis
  proof cases
    case same
    with run have "r = Done \<sigma>" by (simp add: process_internal_event_def)
    then show ?thesis by (simp add: sound_trivial)
  next
    case illegal
    with run have "r = Raised TransitionError \<sigma>" by (simp add: process_internal_event_def)
    then show ?thesis by (simp add: sound_raised_here same_wiring_refl)
  next
    case quiet
    with run have r: "r = Done ?\<sigma>1" by (simp add: process_internal_event_def Let_def)
    show ?thesis unfolding r
      by (rule sound_here) (simp_all add: wiring_updates frame from_source_updates)
  next
    case publish
    with run have "call (Publish_event (consumers (heap ?\<sigma>1 self)) ?relay) ?\<sigma>1 = Some r"
      by (simp add: process_internal_event_def Let_def)
    then have "sound_outcome (Publish_event (consumers (heap ?\<sigma>1 self)) ?relay) ?\<sigma>1 r"
      by (rule well_behavedD[OF wb])
    then show ?thesis
    proof (rule sound_chain[rotated 2])
      show "targets (Publish_event (consumers (heap ?\<sigma>1 self)) ?relay)
              \<subseteq> downstream \<sigma> (targets (Process_internal_event self event))"
        using downstream_consumers[of \<sigma> self] by (simp add: heap_set_state)
    next
      fix s j assume "s \<notin> downstream \<sigma> (targets (Process_internal_event self event))"
      then have "s \<noteq> self" by (simp add: not_downstream_ne)
      then show "from_source s (heap ?\<sigma>1 j)
                   @ delivered s (Publish_event (consumers (heap ?\<sigma>1 self)) ?relay) j
                 = from_source s (heap \<sigma> j) @ delivered s (Process_internal_event self event) j"
        by (simp add: from_source_updates)
    qed (simp_all add: wiring_updates frame)
  qed
qed

lemma publish_event_sound:
  assumes wb: "well_behaved call" and run: "publish_event call cs event \<sigma> = Some r"
  shows "sound_outcome (Publish_event cs event) \<sigma> r"
proof (cases cs)
  case Nil
  with run have "r = Done \<sigma>" by (auto simp: publish_event_def)
  then show ?thesis by (simp add: Nil sound_trivial)
next
  case (Cons consumer rest)
  with run have "and_then (call (Process_event consumer event) \<sigma>)
                   (call (Publish_event rest event)) = Some r"
    by (simp add: publish_event_def)
  then show ?thesis unfolding Cons
  proof (rule sound_and_then[OF wb])
    show "targets (Process_event consumer event)
            \<subseteq> downstream \<sigma> (targets (Publish_event (consumer # rest) event))"
      using downstream_refl[of "set (consumer # rest)" \<sigma>] by simp
    show "targets (Publish_event rest event)
            \<subseteq> downstream \<sigma> (targets (Publish_event (consumer # rest) event))"
      using downstream_refl[of "set (consumer # rest)" \<sigma>] by auto
  qed auto
qed

lemma reaction_wrapper_sound:
  assumes wb: "well_behaved call" and run: "reaction_wrapper call self f event \<sigma> = Some r"
  shows "sound_outcome (Reaction_wrapper self f event) \<sigma> r"
proof (cases "when_rejects (r_when f) (observed_states (heap \<sigma> self)) \<or>
              unless_rejects (r_unless f) (observed_states (heap \<sigma> self))")
  case True
  with run have "r = Done \<sigma>" by (auto simp: reaction_wrapper_def Let_def split: if_splits)
  then show ?thesis by (simp add: sound_trivial)
next
  case False
  with run have "call (Function_body self (r_body f)) \<sigma> = Some r"
    by (simp add: reaction_wrapper_def Let_def)
  then have "sound_outcome (Function_body self (r_body f)) \<sigma> r" by (rule well_behavedD[OF wb])
  then show ?thesis by (rule sound_same_targets) simp_all
qed

lemma process_external_event_sound:
  assumes wb: "well_behaved call" and run: "process_external_event call self event \<sigma> = Some r"
  shows "sound_outcome (Process_external_event self event) \<sigma> r"
proof -
  let ?\<sigma>1 = "set_publisher self (ev_source event) (ev_state event) \<sigma>"
  have frame: "\<And>j. j \<notin> downstream \<sigma> (targets (Process_external_event self event))
                 \<Longrightarrow> heap ?\<sigma>1 j = heap \<sigma> j"
    by (simp add: heap_set_publisher not_downstream_ne)
  show ?thesis
  proof (cases "reactions_to_state (klass (heap ?\<sigma>1 self)) (ev_state event)")
    case None
    with run have r: "r = Done ?\<sigma>1" by (simp add: process_external_event_def Let_def)
    show ?thesis unfolding r
      by (rule sound_here) (simp_all add: wiring_updates frame from_source_updates)
  next
    case (Some g)
    with run have "call (Reaction_wrapper self g event) ?\<sigma>1 = Some r"
      by (simp add: process_external_event_def Let_def)
    then have "sound_outcome (Reaction_wrapper self g event) ?\<sigma>1 r" by (rule well_behavedD[OF wb])
    then show ?thesis
      by (rule sound_chain[rotated 2])
         (simp_all add: wiring_updates frame downstream_refl from_source_updates)
  qed
qed

lemma dispatch_well_behaved:
  assumes wb: "well_behaved call"
  shows "well_behaved (dispatch call)"
  unfolding well_behaved_def
proof (intro allI impI)
  fix c \<sigma> r assume "dispatch call c \<sigma> = Some r"
  then show "sound_outcome c \<sigma> r"
    by (cases c)
       (simp_all add: action_wrapper_sound[OF wb] function_body_sound[OF wb]
          process_event_sound[OF wb] process_internal_event_sound[OF wb]
          publish_event_sound[OF wb] process_external_event_sound[OF wb]
          reaction_wrapper_sound[OF wb])
qed

lemma run_well_behaved: "well_behaved (run n)"
proof (induction n)
  case 0
  show ?case by (simp add: well_behaved_def)
next
  case (Suc n)
  then show ?case by (simp add: dispatch_well_behaved)
qed

lemma run_sound: "run n c \<sigma> = Some r \<Longrightarrow> sound_outcome c \<sigma> r"
  using run_well_behaved by (rule well_behavedD)



lemma downstream_closed_set:
  assumes "\<And>a. a \<in> X \<Longrightarrow> set (consumers (heap \<sigma> a)) \<subseteq> X"
  shows "downstream \<sigma> X = X"
proof
  show "X \<subseteq> downstream \<sigma> X" by (rule downstream_refl)
  show "downstream \<sigma> X \<subseteq> X"
  proof
    fix b assume "b \<in> downstream \<sigma> X"
    then obtain a where a: "a \<in> X" and r: "(a, b) \<in> (consumer_edges \<sigma>)\<^sup>*"
      by (auto simp: downstream_def)
    from r a show "b \<in> X"
      by (induction rule: rtrancl_induct) (use assms in \<open>auto simp: consumer_edges_def\<close>)
  qed
qed

lemma count_list_distinct: "distinct xs \<Longrightarrow> count_list xs x = (if x \<in> set xs then 1 else 0)"
  by (induction xs) auto

lemma publish_event_delivery:
  assumes run: "run n (Publish_event cs ev) \<sigma> = Some r"
      and away: "ev_source ev \<notin> downstream \<sigma> (set cs)"
  shows "heap (store_of r) (ev_source ev) = heap \<sigma> (ev_source ev)"
    and "r = Done \<sigma>' \<Longrightarrow> distinct cs \<Longrightarrow>
           from_source (ev_source ev) (heap \<sigma>' j)
             = from_source (ev_source ev) (heap \<sigma> j) @ (if j \<in> set cs then [ev] else [])"
proof -
  from run have s: "sound_outcome (Publish_event cs ev) \<sigma> r" by (rule run_sound)
  with away show "heap (store_of r) (ev_source ev) = heap \<sigma> (ev_source ev)"
    by (simp add: sound_outcome_def)
  assume "r = Done \<sigma>'" and "distinct cs"
  with s away show "from_source (ev_source ev) (heap \<sigma>' j)
             = from_source (ev_source ev) (heap \<sigma> j) @ (if j \<in> set cs then [ev] else [])"
    by (simp add: sound_outcome_def count_list_distinct)
qed

lemma downstream_after_updates:
  "downstream (set_state self s (append_event self e \<sigma>)) X = downstream \<sigma> X"
  by (rule downstream_wiring[OF same_wiring_trans[OF wiring_updates(1) wiring_updates(2)]])

lemma action_broadcast_outcome:
  assumes "\<not> when_rejects (a_when f) (observed_states (heap \<sigma> self))"
      and "\<not> unless_rejects (a_unless f) (observed_states (heap \<sigma> self))"
      and "run (Suc (Suc n)) (Function_body self (a_body f)) \<sigma> = Some (Done \<sigma>1)"
      and "transitions_to f \<noteq> state (heap \<sigma>1 self)"
      and "transitions_to f \<in> set (get_list (transitions_map (heap \<sigma>1 self)) (state (heap \<sigma>1 self)))"
      and "fn_name f \<in> set (broadcast_events (klass (heap \<sigma>1 self)))"
      and away: "self \<notin> downstream \<sigma>1 (set (consumers (heap \<sigma>1 self)))"
      and run: "run (Suc (Suc (Suc n))) (Action_wrapper self f kwargs) \<sigma> = Some r"
  shows "state (heap (store_of r) self) = transitions_to f"
    and "r = Done \<sigma>' \<Longrightarrow> distinct (consumers (heap \<sigma>1 self)) \<Longrightarrow>
           from_source self (heap \<sigma>' j)
             = from_source self (heap \<sigma>1 j)
               @ (if j = self \<or> j \<in> set (consumers (heap \<sigma>1 self))
                  then [action_event self f kwargs \<sigma>] else [])"
proof -
  let ?ev = "action_event self f kwargs \<sigma>"
  let ?\<sigma>2 = "set_state self (transitions_to f) (append_event self ?ev \<sigma>1)"
  let ?cs = "consumers (heap \<sigma>1 self)"
  have p: "run n (Publish_event ?cs ?ev) ?\<sigma>2 = Some r"
    using action_wrapper_legal_broadcast[OF assms(1-6), of kwargs] run by simp
  have src: "ev_source ?ev = self" by (simp add: action_event_sel)
  have away2: "ev_source ?ev \<notin> downstream ?\<sigma>2 (set ?cs)"
    using away by (simp add: src downstream_after_updates)
  from publish_event_delivery(1)[OF p away2]
  show "state (heap (store_of r) self) = transitions_to f"
    by (simp add: src heap_set_state)
  assume "r = Done \<sigma>'" and "distinct ?cs"
  from publish_event_delivery(2)[OF p away2 this, of j]
  have "from_source self (heap \<sigma>' j)
          = from_source self (heap ?\<sigma>2 j) @ (if j \<in> set ?cs then [?ev] else [])"
    by (simp only: src)
  moreover have "self \<notin> set ?cs" using away downstream_refl[of "set ?cs" \<sigma>1] by blast
  ultimately show "from_source self (heap \<sigma>' j)
             = from_source self (heap \<sigma>1 j)
               @ (if j = self \<or> j \<in> set ?cs then [?ev] else [])"
    by (auto simp: from_source_updates src)
qed







lemma raise_here:
  assumes "\<And>j. from_source s (heap \<sigma>' j) = from_source s (heap \<sigma> j) @ handed s c k0 j"
      and "served_within c k0"
  shows "\<exists>k. served_within c k \<and>
             (\<forall>j. from_source s (heap \<sigma>' j) = from_source s (heap \<sigma> j) @ handed s c k j)"
  using assms by blast

lemma replicate_take_Suc:
  "replicate (count_list (take (Suc k) (c # rest)) j) x
     = (if j = c then [x] else []) @ replicate (count_list (take k rest) j) x"
  by simp









text \<open>
  Claim C2, amended. Take an action whose guards pass and whose body has returned, the
  instance then being at a state \<open>A\<close> other than the target \<open>B\<close>. If \<open>B\<close> is in the
  adjacency list of \<open>A\<close>, the state is set to \<open>B\<close>: the call returns there when the
  action is not among the broadcast events, and otherwise goes on with the fan-out from the
  store in which the instance is at \<open>B\<close>; an instance that is not downstream of its own
  consumers is at \<open>B\<close> when the call has returned or raised. If \<open>B\<close> is not in the
  adjacency list of \<open>A\<close>, the call raises \<^verbatim>\<open>TransitionError\<close> to its caller and the state
  is still \<open>A\<close>.
\<close>

theorem guarded_action_transition:
  "\<not> when_rejects (a_when f) (observed_states (heap \<sigma> self)) \<and>
   \<not> unless_rejects (a_unless f) (observed_states (heap \<sigma> self)) \<and>
   run (Suc (Suc n)) (Function_body self (a_body f)) \<sigma> = Some (Done \<sigma>1) \<and>
   transitions_to f \<noteq> state (heap \<sigma>1 self) \<longrightarrow>
     (transitions_to f \<in> set (get_list (transitions_map (heap \<sigma>1 self)) (state (heap \<sigma>1 self))) \<and>
      fn_name f \<notin> set (broadcast_events (klass (heap \<sigma>1 self))) \<longrightarrow>
        run (Suc (Suc (Suc n))) (Action_wrapper self f kwargs) \<sigma>
          = Some (Done (set_state self (transitions_to f)
                          (append_event self (action_event self f kwargs \<sigma>) \<sigma>1)))) \<and>
     (transitions_to f \<in> set (get_list (transitions_map (heap \<sigma>1 self)) (state (heap \<sigma>1 self))) \<and>
      fn_name f \<in> set (broadcast_events (klass (heap \<sigma>1 self))) \<longrightarrow>
        run (Suc (Suc (Suc n))) (Action_wrapper self f kwargs) \<sigma>
          = run n (Publish_event (consumers (heap \<sigma>1 self)) (action_event self f kwargs \<sigma>))
              (set_state self (transitions_to f)
                 (append_event self (action_event self f kwargs \<sigma>) \<sigma>1))) \<and>
     (transitions_to f \<in> set (get_list (transitions_map (heap \<sigma>1 self)) (state (heap \<sigma>1 self))) \<and>
      fn_name f \<in> set (broadcast_events (klass (heap \<sigma>1 self))) \<and>
      self \<notin> downstream \<sigma>1 (set (consumers (heap \<sigma>1 self))) \<and>
      run (Suc (Suc (Suc n))) (Action_wrapper self f kwargs) \<sigma> = Some r \<longrightarrow>
        state (heap (store_of r) self) = transitions_to f) \<and>
     state (heap (set_state self (transitions_to f)
                    (append_event self (action_event self f kwargs \<sigma>) \<sigma>1)) self)
       = transitions_to f \<and>
     (transitions_to f \<notin> set (get_list (transitions_map (heap \<sigma>1 self)) (state (heap \<sigma>1 self))) \<longrightarrow>
        run (Suc (Suc (Suc n))) (Action_wrapper self f kwargs) \<sigma>
          = Some (Raised TransitionError (append_event self (action_event self f kwargs \<sigma>) \<sigma>1)) \<and>
        state (heap (append_event self (action_event self f kwargs \<sigma>) \<sigma>1) self)
          = state (heap \<sigma>1 self))"
  by (intro conjI impI; (elim conjE)?;
      (erule (5) action_wrapper_legal_quiet | erule (5) action_wrapper_legal_broadcast
       | erule (4) action_wrapper_illegal | erule (7) action_broadcast_outcome(1)
       | simp add: heap_set_state heap_append_event))

lemma scenario_facts:
  "consumers (heap (scenario_store l c) traffic_light) = [cyclist]"
  "consumers (heap (scenario_store l c) cyclist) = []"
  "state (heap (scenario_store l c) traffic_light) = l"
  "state (heap (scenario_store l c) cyclist) = c"
  "klass (heap (scenario_store l c) traffic_light) = TrafficLight"
  "klass (heap (scenario_store l c) cyclist) = Cyclist"
  "publishers (heap (scenario_store l c) cyclist) = [(traffic_light, l)]"
  "publishers (heap (scenario_store l c) traffic_light) = []"
  "events (heap (scenario_store l c) j) = []"
  "transitions_map (heap (scenario_store l c) traffic_light)
     = build_transitions_map TrafficLight_transitions Map.empty"
  "transitions_map (heap (scenario_store l c) cyclist)
     = build_transitions_map Cyclist_transitions Map.empty"
  by (simp_all add: scenario_store_def set_publisher_def on_instance_def StateMachine_init_def
        set_add_def cyclist_def traffic_light_def TrafficLight_fields Cyclist_fields)

lemma scenario_away: "traffic_light \<notin> downstream (scenario_store l c) {cyclist}"
proof -
  have "downstream (scenario_store l c) {cyclist} = {cyclist}"
    by (rule downstream_closed_set) (simp add: scenario_facts)
  then show ?thesis by (simp add: cyclist_def traffic_light_def)
qed

lemma TrafficLight_map:
  "get_list (build_transitions_map TrafficLight_transitions Map.empty) (TrafficLightState GREEN)
     = [TrafficLightState YELLOW]"
  "get_list (build_transitions_map TrafficLight_transitions Map.empty) (TrafficLightState YELLOW)
     = [TrafficLightState RED]"
  "get_list (build_transitions_map TrafficLight_transitions Map.empty) (TrafficLightState RED)
     = [TrafficLightState GREEN]"
  by (simp_all add: TrafficLight_transitions_def setdefault_append_def get_list_def)

lemma Cyclist_map:
  "get_list (build_transitions_map Cyclist_transitions Map.empty) (CyclistState CYCLING)
     = [CyclistState CyclistState.STOPPED]"
  "get_list (build_transitions_map Cyclist_transitions Map.empty) (CyclistState CyclistState.STOPPED)
     = [CyclistState CYCLING]"
  by (simp_all add: Cyclist_transitions_def setdefault_append_def get_list_def)

lemma plain_action_sel:
  "fn_name (plain_action g s b) = g" "transitions_to (plain_action g s b) = s"
  "broadcast (plain_action g s b) = b" "a_when (plain_action g s b) = None"
  "a_unless (plain_action g s b) = None" "a_body (plain_action g s b) = []"
  by (simp_all add: plain_action_def)

lemma function_body_empty_pos: "0 < n \<Longrightarrow> run n (Function_body self []) \<sigma> = Some (Done \<sigma>)"
  by (cases n) (simp_all add: function_body_def)

lemma returned_outcome:
  "final_exception r = Some None \<Longrightarrow> \<exists>\<sigma>'. r = Some (Done \<sigma>')"
  by (cases r; cases "the r") (simp_all add: final_exception_def exception_of_def)

theorem guarded_action_transition_witness:
  "transitions_to Cyclist_stop
     \<noteq> state (heap (scenario_store (TrafficLightState RED) (CyclistState CYCLING)) cyclist) \<and>
   run (Suc (Suc (Suc 0))) (Action_wrapper cyclist Cyclist_stop [])
       (scenario_store (TrafficLightState RED) (CyclistState CYCLING))
     = Some (Done (set_state cyclist (CyclistState CyclistState.STOPPED)
                     (append_event cyclist
                        (action_event cyclist Cyclist_stop []
                           (scenario_store (TrafficLightState RED) (CyclistState CYCLING)))
                        (scenario_store (TrafficLightState RED) (CyclistState CYCLING))))) \<and>
   final_state
     (run 11 (Action_wrapper traffic_light TrafficLight_red [])
        (scenario_store (TrafficLightState YELLOW) (CyclistState CYCLING))) traffic_light
     = Some (TrafficLightState RED) \<and>
   run (Suc (Suc (Suc 0))) (Action_wrapper traffic_light TrafficLight_red [])
       (scenario_store (TrafficLightState GREEN) (CyclistState CYCLING))
     = Some (Raised TransitionError
               (append_event traffic_light
                  (action_event traffic_light TrafficLight_red []
                     (scenario_store (TrafficLightState GREEN) (CyclistState CYCLING)))
                  (scenario_store (TrafficLightState GREEN) (CyclistState CYCLING))))"
proof -
  let ?A = "scenario_store (TrafficLightState RED) (CyclistState CYCLING)"
  let ?B = "scenario_store (TrafficLightState YELLOW) (CyclistState CYCLING)"
  let ?C = "scenario_store (TrafficLightState GREEN) (CyclistState CYCLING)"
  have a: "run (Suc (Suc 0)) (Function_body cyclist (a_body Cyclist_stop)) ?A = Some (Done ?A)"
    by (simp add: Cyclist_stop_def plain_action_sel function_body_empty_pos del: run.simps)
  from guarded_action_transition[of Cyclist_stop ?A cyclist 0 ?A "[]"] a
  have 1: "run (Suc (Suc (Suc 0))) (Action_wrapper cyclist Cyclist_stop []) ?A
     = Some (Done (set_state cyclist (CyclistState CyclistState.STOPPED)
                     (append_event cyclist (action_event cyclist Cyclist_stop [] ?A) ?A)))"
    by (simp add: Cyclist_stop_def plain_action_sel scenario_facts Cyclist_map Cyclist_fields
          del: run.simps)
  have b: "run (Suc (Suc 8)) (Function_body traffic_light (a_body TrafficLight_red)) ?B
             = Some (Done ?B)"
    by (simp add: TrafficLight_red_def plain_action_sel function_body_empty_pos del: run.simps)
  have "final_exception (run 11 (Action_wrapper traffic_light TrafficLight_red []) ?B) = Some None"
    by code_simp
  then obtain \<sigma>' where "run 11 (Action_wrapper traffic_light TrafficLight_red []) ?B = Some (Done \<sigma>')"
    using returned_outcome by blast
  then have r: "run (Suc (Suc (Suc 8))) (Action_wrapper traffic_light TrafficLight_red []) ?B
                  = Some (Done \<sigma>')"
    by simp
  from guarded_action_transition[of TrafficLight_red ?B traffic_light 8 ?B "[]" "Done \<sigma>'"] b r
  have "state (heap (store_of (Done \<sigma>')) traffic_light) = TrafficLightState RED"
    by (simp add: TrafficLight_red_def plain_action_sel scenario_facts TrafficLight_map
          TrafficLight_fields scenario_away del: run.simps)
  with r have 2: "final_state (run 11 (Action_wrapper traffic_light TrafficLight_red []) ?B)
                    traffic_light = Some (TrafficLightState RED)"
    by (simp add: final_state_def)
  have c: "run (Suc (Suc 0)) (Function_body traffic_light (a_body TrafficLight_red)) ?C
             = Some (Done ?C)"
    by (simp add: TrafficLight_red_def plain_action_sel function_body_empty_pos del: run.simps)
  from guarded_action_transition[of TrafficLight_red ?C traffic_light 0 ?C "[]"] c
  have 3: "run (Suc (Suc (Suc 0))) (Action_wrapper traffic_light TrafficLight_red []) ?C
     = Some (Raised TransitionError
               (append_event traffic_light (action_event traffic_light TrafficLight_red [] ?C) ?C))"
    by (simp add: TrafficLight_red_def plain_action_sel scenario_facts TrafficLight_map
          del: run.simps)
  have 0: "transitions_to Cyclist_stop \<noteq> state (heap ?A cyclist)"
    by (simp add: Cyclist_stop_def plain_action_sel scenario_facts)
  from 0 1 2 3 show ?thesis by (intro conjI)
qed

text \<open>
  Claim C2 as stated covers every action. An action whose guard rejects returns without an
  error and without a transition, although the transition is declared: the cyclist is
  stopped, the light is red, and \<^verbatim>\<open>cycle_slow()\<close> leaves the cyclist stopped.
\<close>

theorem rejected_legal_target_counterexample:
  "transitions_to cycle_slow = CyclistState CYCLING \<and>
   state (heap (scenario_store (TrafficLightState RED) (CyclistState CyclistState.STOPPED)) cyclist)
     = CyclistState CyclistState.STOPPED \<and>
   CyclistState CYCLING
     \<in> set (get_list
              (transitions_map
                 (heap (scenario_store (TrafficLightState RED) (CyclistState CyclistState.STOPPED))
                    cyclist))
              (CyclistState CyclistState.STOPPED)) \<and>
   final_exception
     (invoke 11 cyclist ''cycle_slow'' []
        (scenario_store (TrafficLightState RED) (CyclistState CyclistState.STOPPED))) = Some None \<and>
   final_state
     (invoke 11 cyclist ''cycle_slow'' []
        (scenario_store (TrafficLightState RED) (CyclistState CyclistState.STOPPED))) cyclist
     = Some (CyclistState CyclistState.STOPPED)"
  by code_simp

theorem same_state_action_is_noop_witness:
  "broadcast TrafficLight_red \<and>
   ev_source (action_event traffic_light TrafficLight_red []
                (scenario_store (TrafficLightState RED) (CyclistState CYCLING)))
     = traffic_light \<and>
   transitions_to TrafficLight_red
     = state (heap (scenario_store (TrafficLightState RED) (CyclistState CYCLING)) traffic_light) \<and>
   cyclist \<noteq> traffic_light \<and>
   cyclist \<in> set (consumers
                    (heap (scenario_store (TrafficLightState RED) (CyclistState CYCLING))
                       traffic_light)) \<and>
   run (Suc (Suc 0))
     (Process_event traffic_light
        (action_event traffic_light TrafficLight_red []
           (scenario_store (TrafficLightState RED) (CyclistState CYCLING))))
     (scenario_store (TrafficLightState RED) (CyclistState CYCLING))
   = Some (Done (append_event traffic_light
                   (action_event traffic_light TrafficLight_red []
                      (scenario_store (TrafficLightState RED) (CyclistState CYCLING)))
                   (scenario_store (TrafficLightState RED) (CyclistState CYCLING)))) \<and>
   run (Suc (Suc (Suc 0))) (Action_wrapper traffic_light TrafficLight_red [])
     (scenario_store (TrafficLightState RED) (CyclistState CYCLING))
   = Some (Done (append_event traffic_light
                   (action_event traffic_light TrafficLight_red []
                      (scenario_store (TrafficLightState RED) (CyclistState CYCLING)))
                   (scenario_store (TrafficLightState RED) (CyclistState CYCLING)))) \<and>
   heap (append_event traffic_light
           (action_event traffic_light TrafficLight_red []
              (scenario_store (TrafficLightState RED) (CyclistState CYCLING)))
           (scenario_store (TrafficLightState RED) (CyclistState CYCLING)))
        cyclist
   = heap (scenario_store (TrafficLightState RED) (CyclistState CYCLING)) cyclist"
proof -
  let ?A = "scenario_store (TrafficLightState RED) (CyclistState CYCLING)"
  let ?e = "action_event traffic_light TrafficLight_red [] ?A"
  have ne: "cyclist \<noteq> traffic_light" by (simp add: traffic_light_def cyclist_def)
  have body: "run (Suc (Suc 0)) (Function_body traffic_light (a_body TrafficLight_red)) ?A
                = Some (Done ?A)"
    by (simp add: TrafficLight_red_def plain_action_sel function_body_empty_pos del: run.simps)
  from same_state_action_is_noop
         [where e = ?e and self = traffic_light and \<sigma> = ?A and n = 0 and f = TrafficLight_red
            and ?\<sigma>1.0 = ?A and kwargs = "[]" and j = cyclist] body ne
  show ?thesis
    by (simp add: TrafficLight_red_def plain_action_sel scenario_facts action_event_sel
          del: run.simps)
qed

theorem body_runs_before_transition_check_witness:
  "when_rejects (a_when cycle_slow)
     (observed_states
        (heap (scenario_store (TrafficLightState RED) (CyclistState CyclistState.STOPPED)) cyclist)) \<and>
   run (Suc 0) (Action_wrapper cyclist cycle_slow [])
     (scenario_store (TrafficLightState RED) (CyclistState CyclistState.STOPPED))
   = Some (Done (scenario_store (TrafficLightState RED) (CyclistState CyclistState.STOPPED))) \<and>
   run (Suc (Suc (Suc (Suc 0))))
     (Action_wrapper traffic_light (TrafficLight_red\<lparr>a_body := [Effect ''switch'']\<rparr>) [])
     (scenario_store (TrafficLightState GREEN) (CyclistState CYCLING))
   = Some (Raised TransitionError
             (append_event traffic_light
                (action_event traffic_light (TrafficLight_red\<lparr>a_body := [Effect ''switch'']\<rparr>) []
                   (scenario_store (TrafficLightState GREEN) (CyclistState CYCLING)))
                ((scenario_store (TrafficLightState GREEN) (CyclistState CYCLING))
                   \<lparr>effects := effects (scenario_store (TrafficLightState GREEN) (CyclistState CYCLING))
                                 @ [(traffic_light, ''switch'')]\<rparr>))) \<and>
   final_effects
     (run (Suc (Suc (Suc (Suc 0))))
        (Action_wrapper traffic_light (TrafficLight_red\<lparr>a_body := [Effect ''switch'']\<rparr>) [])
        (scenario_store (TrafficLightState GREEN) (CyclistState CYCLING)))
   = Some [(traffic_light, ''switch'')] \<and>
   final_state
     (run (Suc (Suc (Suc (Suc 0))))
        (Action_wrapper traffic_light (TrafficLight_red\<lparr>a_body := [Effect ''switch'']\<rparr>) [])
        (scenario_store (TrafficLightState GREEN) (CyclistState CYCLING))) traffic_light
   = Some (TrafficLightState GREEN)"
proof -
  let ?A = "scenario_store (TrafficLightState RED) (CyclistState CyclistState.STOPPED)"
  let ?C = "scenario_store (TrafficLightState GREEN) (CyclistState CYCLING)"
  let ?f = "TrafficLight_red\<lparr>a_body := [Effect ''switch'']\<rparr>"
  let ?C1 = "?C\<lparr>effects := effects ?C @ [(traffic_light, ''switch'')]\<rparr>"
  have rej: "when_rejects (a_when cycle_slow) (observed_states (heap ?A cyclist))"
    by (simp add: cycle_slow_def observed_states_def scenario_facts)
  from body_runs_before_transition_check
         [where f = cycle_slow and \<sigma> = ?A and self = cyclist and n = 0 and kwargs = "[]"] rej
  have 1: "run (Suc 0) (Action_wrapper cyclist cycle_slow []) ?A = Some (Done ?A)"
    by blast
  have eff: "effects ?C = []" by (simp add: scenario_store_def register_effects set_publisher_def
        on_instance_def del: register.simps)
  from body_runs_before_transition_check
         [where f = ?f and \<sigma> = ?C and self = traffic_light and kwargs = "[]"
            and ls = "[''switch'']" and k = 0]
  have 2: "run (Suc (Suc (Suc (Suc 0)))) (Action_wrapper traffic_light ?f []) ?C
             = Some (Raised TransitionError
                       (append_event traffic_light (action_event traffic_light ?f [] ?C) ?C1))"
    by (simp add: TrafficLight_red_def plain_action_sel scenario_facts TrafficLight_map
          del: run.simps)
  have body: "run (Suc (Suc (Suc 0))) (Function_body traffic_light (a_body ?f)) ?C
                = Some (Done ?C1)"
    using function_body_effects[of "[''switch'']" 1 traffic_light ?C] by (simp del: run.simps)
  from body_runs_before_transition_check
         [where f = ?f and \<sigma> = ?C and self = traffic_light and kwargs = "[]"
            and n = "Suc 0" and ?\<sigma>1.0 = ?C1] body
  have 3: "run (Suc (Suc (Suc (Suc 0)))) (Action_wrapper traffic_light ?f []) ?C
             = Some (Raised TransitionError
                       (append_event traffic_light (action_event traffic_light ?f [] ?C) ?C1)) \<and>
           effects (append_event traffic_light (action_event traffic_light ?f [] ?C) ?C1)
             = effects ?C1"
    by (simp add: TrafficLight_red_def plain_action_sel scenario_facts TrafficLight_map
          del: run.simps)
  show ?thesis
    unfolding 2
    using rej 1 3
    by (simp add: final_effects_def final_state_def store_of_def eff
          heap_append_event scenario_facts del: run.simps)
qed

theorem external_event_handling_witness:
  "traffic_light \<noteq> cyclist \<and>
   run (Suc (Suc (Suc 0)))
     (Process_event cyclist
        \<lparr>ev_name = ''yellow'', ev_source = traffic_light, ev_state = TrafficLightState YELLOW,
         ev_meta = Some []\<rparr>)
     (scenario_store (TrafficLightState GREEN) (CyclistState CYCLING))
   = Some (Done (set_publisher cyclist traffic_light (TrafficLightState YELLOW)
                  (append_event cyclist
                     \<lparr>ev_name = ''yellow'', ev_source = traffic_light,
                      ev_state = TrafficLightState YELLOW, ev_meta = Some []\<rparr>
                     (scenario_store (TrafficLightState GREEN) (CyclistState CYCLING))))) \<and>
   TrafficLightState YELLOW
     \<in> observed_states
         (heap (set_publisher cyclist traffic_light (TrafficLightState YELLOW)
                  (scenario_store (TrafficLightState GREEN) (CyclistState CYCLING))) cyclist)"
proof -
  let ?G = "scenario_store (TrafficLightState GREEN) (CyclistState CYCLING)"
  let ?e = "\<lparr>ev_name = ''yellow'', ev_source = traffic_light, ev_state = TrafficLightState YELLOW,
             ev_meta = Some []\<rparr>"
  have ne: "traffic_light \<noteq> cyclist" by (simp add: traffic_light_def cyclist_def)
  have none: "reactions_to_state (klass (heap (append_event cyclist ?e ?G) cyclist))
                (TrafficLightState YELLOW) = None"
    by (simp add: heap_append_event scenario_facts Cyclist_fields)
  from external_event_handling[where e = ?e and self = cyclist and \<sigma> = ?G and n = 0] ne
  have 1: "run (Suc (Suc (Suc 0))) (Process_event cyclist ?e) ?G
             = run (Suc (Suc 0)) (Process_external_event cyclist ?e) (append_event cyclist ?e ?G)"
       and 2: "TrafficLightState YELLOW
                 \<in> observed_states (heap (set_publisher cyclist traffic_light
                                             (TrafficLightState YELLOW) ?G) cyclist)"
    by simp_all
  from external_event_handling
         [where e = ?e and self = cyclist and \<sigma> = "append_event cyclist ?e ?G" and n = 0] ne none
  have 3: "run (Suc (Suc 0)) (Process_external_event cyclist ?e) (append_event cyclist ?e ?G)
             = Some (Done (set_publisher cyclist traffic_light (TrafficLightState YELLOW)
                             (append_event cyclist ?e ?G)))"
    by (simp del: run.simps)
  from ne 1 2 3 show ?thesis by (simp del: run.simps)
qed






text \<open>
  \<^verbatim>\<open>consumers\<close> stays duplicate-free: the constructor starts it empty, \<^verbatim>\<open>register\<close>
  and \<^verbatim>\<open>subscribe\<close> keep it so, and the dispatcher does not change it.
\<close>

lemma register_distinct:
  "distinct (consumers (heap \<sigma> j)) \<Longrightarrow> distinct (consumers (heap (register self cs \<sigma>) j))"
  by (auto simp: register_heap distinct_foldl_set_add)

lemma subscribe_distinct:
  "(\<And>j. distinct (consumers (heap \<sigma> j))) \<Longrightarrow>
     distinct (consumers (heap (subscribe self ps \<sigma>) j))"
proof (induction ps arbitrary: \<sigma> j)
  case Nil
  then show ?case by simp
next
  case (Cons p ps)
  show ?case
    unfolding subscribe.simps Let_def
    by (rule Cons.IH) (simp add: register_distinct heap_set_publisher Cons.prems del: register.simps)
qed

lemma run_distinct:
  "run n c \<sigma> = Some r \<Longrightarrow> distinct (consumers (heap \<sigma> j)) \<Longrightarrow>
     distinct (consumers (heap (store_of r) j))"
  using run_sound[of n c \<sigma> r] by (simp add: sound_outcome_def same_wiring_def)

end
